theory Spec2Isabelle
  imports Main "HOL-Library.Sublist"
begin

section \<open>Values of the script\<close>

text \<open>
  The program is \<^verbatim>\<open>post.js\<close> (lines 1 to 355 of the source file, the current revision
  of the script). Everything the script does to its surroundings is made explicit: the
  JSON files of the working directory, the remote \<^verbatim>\<open>blogger.posts\<close> client, the timers
  and the notification sender.
\<close>

subsection \<open>Strings\<close>

text \<open>\<^verbatim>\<open>String.prototype.includes\<close>: the pattern occurs as a contiguous part.\<close>

fun str_includes :: "string \<Rightarrow> string \<Rightarrow> bool" where
  "str_includes [] p = (p = [])"
| "str_includes (c # cs) p = (prefix p (c # cs) \<or> str_includes cs p)"

text \<open>Decimal rendering of a number inside a template literal.\<close>

definition digit :: "nat \<Rightarrow> char" where
  "digit d = char_of (48 + d)"

function show_nat :: "nat \<Rightarrow> string" where
  "show_nat n = (if n < 10 then [digit n] else show_nat (n div 10) @ [digit (n mod 10)])"
  by pat_completeness auto
termination
  by (relation "measure id") auto

definition show_int :: "int \<Rightarrow> string" where
  "show_int k = (if k < 0 then CHR ''-'' # show_nat (nat (- k)) else show_nat (nat k))"

subsection \<open>Errors\<close>

text \<open>
  The \<^verbatim>\<open>code\<close> property of a rejected request: absent, a number (an HTTP status) or a
  string (\<^verbatim>\<open>'ENOENT'\<close>, \<^verbatim>\<open>'ECONNRESET'\<close>). The comparisons of the script are strict
  (\<^verbatim>\<open>===\<close>), so a string never equals a number.
\<close>

datatype code = NoCode | NumCode int | StrCode string

text \<open>
  A thrown value is an \<^verbatim>\<open>Error\<close> object: its \<^verbatim>\<open>message\<close> is a string, \<^verbatim>\<open>errors\<close> is
  absent or an array, of which only the \<^verbatim>\<open>reason\<close> of each entry is read.
\<close>

record err =
  message :: string
  code :: code
  errors :: "string list option"

definition new_Error :: "string \<Rightarrow> err" where
  "new_Error m = \<lparr>message = m, code = NoCode, errors = None\<rparr>"

definition show_code :: "code \<Rightarrow> string" where
  "show_code c = (case c of NoCode \<Rightarrow> ''undefined'' | NumCode k \<Rightarrow> show_int k | StrCode s \<Rightarrow> s)"

text \<open>
  How a part of the driver completes: normally, by a thrown error, or by
  \<^verbatim>\<open>process.exit\<close>. Functions that only return or throw have a result \<open>err + 'a\<close>.
\<close>

datatype 'a completion = Normal 'a | Throw err | Exit nat

subsection \<open>Sets of titles\<close>

text \<open>
  A JavaScript \<^verbatim>\<open>Set\<close> of strings keeps insertion order, which is the order
  \<^verbatim>\<open>[...set]\<close> writes to disk: a list without duplicates.
\<close>

definition has :: "string list \<Rightarrow> string \<Rightarrow> bool" where
  "has s x = (x \<in> set s)"

definition add :: "string list \<Rightarrow> string \<Rightarrow> string list" where
  "add s x = (if x \<in> set s then s else s @ [x])"

definition new_Set :: "string list \<Rightarrow> string list" where
  "new_Set xs = foldl add [] xs"

definition size_of :: "string list \<Rightarrow> nat" where
  "size_of s = length s"

subsection \<open>Records of the data model\<close>

record post =
  title :: string
  content :: string
  labels :: "string list option"

text \<open>
  An element of \<^verbatim>\<open>posts.json\<close>: a post whose \<^verbatim>\<open>title\<close> is a string, an object with
  no \<^verbatim>\<open>title\<close>, or an object whose \<^verbatim>\<open>title\<close> is not a string.
\<close>

datatype entry = Post post | NoTitle | NonStringTitle

record request =
  req_title :: string
  req_content :: string
  req_labels :: "string list"

datatype failed_entry = Failed (index: int) (failed_title: string) (error: string)

text \<open>
  The cursor as the loop sees it: \<^verbatim>\<open>lastProcessed\<close> is a number and \<^verbatim>\<open>failed\<close> an array
  (line 266 replaces anything else that \<^verbatim>\<open>progress.json\<close> may hold by the empty array).
\<close>

record progress =
  lastProcessed :: int
  failed :: "failed_entry list"

text \<open>
  The cursor as \<^verbatim>\<open>progress.json\<close> holds it: \<^verbatim>\<open>lastProcessed\<close> is a number, and \<^verbatim>\<open>failed\<close>
  is an array or is not there (\<open>None\<close>: the member is missing or \<^verbatim>\<open>null\<close>). A \<^verbatim>\<open>failed\<close>
  of another type is not part of the model.
\<close>

record progress_file =
  file_lastProcessed :: int
  file_failed :: "failed_entry list option"

record report =
  terminationReason :: string
  totalPostsAttempted :: int
  successfulPosts :: int
  failedPosts :: "failed_entry list"
  postedIdsCount :: nat
  existingTitlesCount :: nat

text \<open>The four messages handed to \<^verbatim>\<open>sendWhatsAppMessage\<close>, by their variable parts.\<close>

datatype notification =
    Starting nat nat
  | ErrorPosting int string string
  | JobReport report
  | Finished int nat

subsection \<open>The world outside the script\<close>

text \<open>
  Reading a file either throws (\<^verbatim>\<open>fs.readFile\<close> or \<^verbatim>\<open>JSON.parse\<close>) or yields its
  parsed content, which has the schema of that file. A file that does not exist is
  \<open>Failing e\<close> with \<open>code e = StrCode ''ENOENT''\<close>.
\<close>

datatype 'a jfile = Failing err | Content 'a

text \<open>The second and first argument of \<^verbatim>\<open>saveJsonFile\<close>: which file, with which data.\<close>

datatype file_write =
    PostedIds "string list"
  | ExistingTitles "string list"
  | Progress progress
  | FailedPosts "failed_entry list"
  | Report report

text \<open>
  What the script does, in order: entering the loop body for an index (line 280), a call
  of \<^verbatim>\<open>blogger.posts.insert\<close> (line 200), the wait before a retry (line 238), the wait
  between two items (line 322), a message sent (line 106), a file written (line 84).
\<close>

datatype event =
    Visit int
  | Insert request
  | Backoff nat
  | Pace nat
  | Notify notification
  | Saved file_write

record world =
  posts_json :: "entry list jfile"
  posted_ids_json :: "string list jfile"
  progress_json :: "progress_file jfile"
  existing_titles_json :: "string list jfile"
  failed_posts_json :: "failed_entry list jfile"
  reports :: "report list"
  n_insert :: nat
  n_list :: nat
  n_save :: nat
  trace :: "event list"

datatype insert_reply = Resolved string | Rejected err

datatype list_reply = Listed "string list" bool | ListFailed err

text \<open>
  The collaborators: the environment variables, and what the \<open>k\<close>-th call of
  \<^verbatim>\<open>blogger.posts.insert\<close>, of \<^verbatim>\<open>blogger.posts.list\<close> and of \<^verbatim>\<open>saveJsonFile\<close> meets.
  \<open>Listed ts token\<close> is a page of titles, \<open>token\<close> telling whether it carries a
  \<^verbatim>\<open>nextPageToken\<close>.
\<close>

record env =
  required_vars :: bool
  whatsapp :: bool
  insert_reply :: "nat \<Rightarrow> insert_reply"
  list_reply :: "nat \<Rightarrow> list_reply"
  save_error :: "nat \<Rightarrow> err option"

section \<open>Configuration\<close>

definition MAX_RETRIES :: nat where "MAX_RETRIES = 5"
definition BASE_DELAY :: nat where "BASE_DELAY = 10000"
definition QUOTA_DELAY :: nat where "QUOTA_DELAY = 3600000"
definition MAX_POSTS_PER_HOUR :: nat where "MAX_POSTS_PER_HOUR = 50"

section \<open>Files\<close>

definition loadJsonFile :: "'a jfile \<Rightarrow> 'a \<Rightarrow> err + 'a" where
  "loadJsonFile f defaultValue =
     (case f of
        Content v \<Rightarrow> Inr v
      | Failing e \<Rightarrow> if code e = StrCode ''ENOENT'' then Inr defaultValue else Inl e)"

text \<open>\<^verbatim>\<open>JSON.stringify\<close> of the cursor of the loop: the array is always written.\<close>

definition stringify :: "progress \<Rightarrow> progress_file" where
  "stringify pr = \<lparr>file_lastProcessed = lastProcessed pr, file_failed = Some (failed pr)\<rparr>"

definition store :: "file_write \<Rightarrow> world \<Rightarrow> world" where
  "store fw w =
     (case fw of
        PostedIds xs \<Rightarrow> w\<lparr>posted_ids_json := Content xs\<rparr>
      | ExistingTitles xs \<Rightarrow> w\<lparr>existing_titles_json := Content xs\<rparr>
      | Progress p \<Rightarrow> w\<lparr>progress_json := Content (stringify p)\<rparr>
      | FailedPosts fs \<Rightarrow> w\<lparr>failed_posts_json := Content fs\<rparr>
      | Report r \<Rightarrow> w\<lparr>reports := reports w @ [r]\<rparr>)"

text \<open>
  \<^verbatim>\<open>saveJsonFile\<close> writes a temporary file and renames it; when either step throws, the
  target is as before and the error is rethrown.
\<close>

definition written :: "file_write \<Rightarrow> world \<Rightarrow> world" where
  "written fw w = (store fw w)\<lparr>n_save := n_save w + 1, trace := trace w @ [Saved fw]\<rparr>"

definition saveJsonFile :: "env \<Rightarrow> file_write \<Rightarrow> world \<Rightarrow> err option \<times> world" where
  "saveJsonFile ev fw w =
     (case save_error ev (n_save w) of
        Some e \<Rightarrow> (Some e, w\<lparr>n_save := n_save w + 1\<rparr>)
      | None \<Rightarrow> (None, written fw w))"

text \<open>
  Lines 265 and 266: the cursor file is read, with the default of a first run when there
  is none, and a \<^verbatim>\<open>failed\<close> that is not an array is replaced by the empty array.
\<close>

definition default_progress :: progress_file where
  "default_progress = \<lparr>file_lastProcessed = - 1, file_failed = Some []\<rparr>"

definition repair :: "progress_file \<Rightarrow> progress" where
  "repair pf =
     \<lparr>lastProcessed = file_lastProcessed pf,
      failed = (case file_failed pf of Some fs \<Rightarrow> fs | None \<Rightarrow> [])\<rparr>"

definition loadProgress :: "world \<Rightarrow> err + progress" where
  "loadProgress w = map_sum id repair (loadJsonFile (progress_json w) default_progress)"

definition loadPostedIds :: "world \<Rightarrow> err + string list" where
  "loadPostedIds w = map_sum id new_Set (loadJsonFile (posted_ids_json w) [])"

definition savePostedIds :: "env \<Rightarrow> string list \<Rightarrow> world \<Rightarrow> err option \<times> world" where
  "savePostedIds ev postedIds w = saveJsonFile ev (PostedIds postedIds) w"

section \<open>Notifications and reports\<close>

text \<open>
  \<^verbatim>\<open>sendWhatsAppMessage\<close> returns without sending when the channel is not configured,
  and swallows every error of the request: it never throws.
\<close>

definition sendWhatsAppMessage :: "env \<Rightarrow> notification \<Rightarrow> world \<Rightarrow> world" where
  "sendWhatsAppMessage ev m w =
     (if whatsapp ev then w\<lparr>trace := trace w @ [Notify m]\<rparr> else w)"

text \<open>
  Lines 118 to 126, the report object; its timestamp, the wall-clock time, is left out.
  An empty reason is falsy and replaced.
\<close>

definition build_report ::
  "int \<Rightarrow> failed_entry list \<Rightarrow> string \<Rightarrow> string list \<Rightarrow> string list \<Rightarrow> report" where
  "build_report successCount failed_posts reason ids titles =
     \<lparr>terminationReason = (if reason = [] then ''Completed normally'' else reason),
      totalPostsAttempted = successCount + int (length failed_posts),
      successfulPosts = successCount,
      failedPosts = failed_posts,
      postedIdsCount = size_of ids,
      existingTitlesCount = length titles\<rparr>"

definition generateReport ::
  "env \<Rightarrow> int \<Rightarrow> failed_entry list \<Rightarrow> string \<Rightarrow> world \<Rightarrow> err option \<times> world" where
  "generateReport ev successCount failed_posts reason w =
     (case loadPostedIds w of
        Inl e \<Rightarrow> (Some e, w)
      | Inr ids \<Rightarrow>
         (case loadJsonFile (existing_titles_json w) [] of
            Inl e \<Rightarrow> (Some e, w)
          | Inr titles \<Rightarrow>
             (case saveJsonFile ev
                     (Report (build_report successCount failed_posts reason ids titles)) w of
                (Some e, w') \<Rightarrow> (Some e, w')
              | (None, w') \<Rightarrow>
                  (None, sendWhatsAppMessage ev
                           (JobReport (build_report successCount failed_posts reason ids titles))
                           w'))))"

section \<open>Publishing one post, with retries\<close>

text \<open>Lines 222 to 229: the errors that are retried.\<close>

definition isRateLimitError :: "err \<Rightarrow> bool" where
  "isRateLimitError e =
     (code e = NumCode 429 \<or>
      code e = NumCode 403 \<or>
      str_includes (message e) ''quotaExceeded'' \<or>
      str_includes (message e) ''Daily Limit Exceeded'' \<or>
      str_includes (message e) ''User Rate Limit Exceeded'' \<or>
      str_includes (message e) ''too many requests'' \<or>
      (case errors e of
         None \<Rightarrow> False
       | Some rs \<Rightarrow> list_ex (\<lambda>r. r = ''rateLimitExceeded'' \<or> r = ''userRateLimitExceeded'') rs))"

text \<open>
  Lines 232 to 236. \<^verbatim>\<open>Math.pow(2, attempt - 1)\<close> is one half at attempt 0, which no
  call of the script passes.
\<close>

definition retry_wait :: "err \<Rightarrow> nat \<Rightarrow> nat" where
  "retry_wait e attempt =
     (if str_includes (message e) ''quotaExceeded'' \<or> code e = NumCode 403 then QUOTA_DELAY
      else if code e = NumCode 429 then 60000
      else if attempt = 0 then BASE_DELAY div 2
      else BASE_DELAY * 2 ^ (attempt - 1))"

text \<open>Line 244.\<close>

definition rate_limit_exceeded :: "nat \<Rightarrow> err \<Rightarrow> err" where
  "rate_limit_exceeded attempt e =
     new_Error (''Rate limit exceeded after '' @ show_nat attempt @ '' attempts: '' @
                message e @ '' (code: '' @ show_code (code e) @ '')'')"

datatype attempt_result = Skipped | Success string

text \<open>Lines 202 to 206, the body of the request.\<close>

definition request_of :: "post \<Rightarrow> request" where
  "request_of postData =
     \<lparr>req_title = title postData, req_content = content postData,
      req_labels = (case labels postData of None \<Rightarrow> [] | Some ls \<Rightarrow> ls)\<rparr>"

text \<open>
  Lines 196 to 212, the body of the \<^verbatim>\<open>try\<close>. The two sets are mutated in place by the
  script, so they are returned with the result: even when it is a throw.
\<close>

definition publish_once ::
  "env \<Rightarrow> post \<Rightarrow> string list \<Rightarrow> string list \<Rightarrow> world \<Rightarrow>
   (err + attempt_result) \<times> string list \<times> string list \<times> world" where
  "publish_once ev postData postedIds existingTitles w =
     (if has postedIds (title postData) \<or> has existingTitles (title postData)
      then (Inr Skipped, postedIds, existingTitles, w)
      else
        let w1 = w\<lparr>n_insert := n_insert w + 1,
                    trace := trace w @ [Insert (request_of postData)]\<rparr>
        in case insert_reply ev (n_insert w) of
             Rejected e \<Rightarrow> (Inl e, postedIds, existingTitles, w1)
           | Resolved url \<Rightarrow>
              (let postedIds' = add postedIds (title postData);
                   existingTitles' = add existingTitles (title postData)
               in case savePostedIds ev postedIds' w1 of
                    (Some e, w2) \<Rightarrow> (Inl e, postedIds', existingTitles', w2)
                  | (None, w2) \<Rightarrow>
                     (case saveJsonFile ev (ExistingTitles existingTitles') w2 of
                        (Some e, w3) \<Rightarrow> (Inl e, postedIds', existingTitles', w3)
                      | (None, w3) \<Rightarrow> (Inr (Success url), postedIds', existingTitles', w3))))"

function postToBloggerWithRetry ::
  "env \<Rightarrow> post \<Rightarrow> string list \<Rightarrow> string list \<Rightarrow> nat \<Rightarrow> world \<Rightarrow>
   (err + attempt_result) \<times> string list \<times> string list \<times> world" where
  "postToBloggerWithRetry ev postData postedIds existingTitles attempt w =
     (case publish_once ev postData postedIds existingTitles w of
        (Inl e, postedIds', existingTitles', w') \<Rightarrow>
          if isRateLimitError e \<and> attempt < MAX_RETRIES then
            postToBloggerWithRetry ev postData postedIds' existingTitles' (attempt + 1)
              (w'\<lparr>trace := trace w' @ [Backoff (retry_wait e attempt)]\<rparr>)
          else if isRateLimitError e then
            (Inl (rate_limit_exceeded attempt e), postedIds', existingTitles', w')
          else (Inl e, postedIds', existingTitles', w')
      | r \<Rightarrow> r)"
  by pat_completeness auto
termination
  by (relation "measure (\<lambda>(ev, postData, postedIds, existingTitles, attempt, w). MAX_RETRIES - attempt)")
     auto

section \<open>The title cache\<close>

text \<open>
  Lines 169 to 186, the \<^verbatim>\<open>do ... while (nextPageToken)\<close> loop. A remote that hands out a
  next page for ever keeps it running, so the loop is a partial function.
\<close>

partial_function (option) list_pages ::
  "env \<Rightarrow> string list \<Rightarrow> world \<Rightarrow> (string list \<times> world) option" where
  [code]: "list_pages ev allTitles w =
     (case list_reply ev (n_list w) of
        ListFailed e \<Rightarrow> Some (allTitles, w\<lparr>n_list := n_list w + 1\<rparr>)
      | Listed ts token \<Rightarrow>
          if token then list_pages ev (foldl add allTitles ts) (w\<lparr>n_list := n_list w + 1\<rparr>)
          else Some (foldl add allTitles ts, w\<lparr>n_list := n_list w + 1\<rparr>))"

text \<open>Lines 166 to 190: list the remote titles, then write the cache.\<close>

definition refresh_titles :: "env \<Rightarrow> world \<Rightarrow> ((err + string list) \<times> world) option" where
  "refresh_titles ev w =
     (case list_pages ev [] w of
        None \<Rightarrow> None
      | Some (allTitles, w1) \<Rightarrow>
         (case saveJsonFile ev (ExistingTitles allTitles) w1 of
            (Some e, w2) \<Rightarrow> Some (Inl e, w2)
          | (None, w2) \<Rightarrow> Some (Inr allTitles, w2)))"

definition fetchExistingTitles :: "env \<Rightarrow> world \<Rightarrow> ((err + string list) \<times> world) option" where
  "fetchExistingTitles ev w =
     (case loadJsonFile (existing_titles_json w) [] of
        Inl e \<Rightarrow> refresh_titles ev w
      | Inr cachedTitles \<Rightarrow>
          if length cachedTitles > 0 then Some (Inr (new_Set cachedTitles), w)
          else refresh_titles ev w)"

section \<open>The batch driver\<close>

text \<open>The variables of \<^verbatim>\<open>postToBlogger\<close> that the loop reads and writes.\<close>

record state =
  progress :: progress
  postedIds :: "string list"
  existingTitles :: "string list"
  postCountSinceLastSave :: nat

text \<open>
  Lines 280 and 281: \<^verbatim>\<open>postsData[i]\<close> is \<^verbatim>\<open>undefined\<close> outside the array, and
  \<^verbatim>\<open>post.title.substring(0, 50)\<close> throws a \<^verbatim>\<open>TypeError\<close> unless the title is a string.
  The messages are those of Node 18.
\<close>

definition quoted :: "string \<Rightarrow> string" where
  "quoted s = [CHR 0x27] @ s @ [CHR 0x27]"

definition entry_at :: "entry list \<Rightarrow> int \<Rightarrow> err + post" where
  "entry_at postsData i =
     (if 0 \<le> i \<and> i < int (length postsData) then
        (case postsData ! nat i of
           Post p \<Rightarrow> Inr p
         | NoTitle \<Rightarrow>
             Inl (new_Error (''Cannot read properties of undefined (reading '' @
                             quoted ''substring'' @ '')''))
         | NonStringTitle \<Rightarrow> Inl (new_Error ''post.title.substring is not a function''))
      else Inl (new_Error (''Cannot read properties of undefined (reading '' @
                           quoted ''title'' @ '')'')))"

text \<open>Lines 309, 332 and 352.\<close>

definition successCount_of :: "progress \<Rightarrow> int" where
  "successCount_of pr = lastProcessed pr + 1 - int (length (failed pr))"

text \<open>Lines 289 and 290.\<close>

definition advance :: "int \<Rightarrow> state \<Rightarrow> state" where
  "advance i st =
     st\<lparr>progress := (progress st)\<lparr>lastProcessed := i\<rparr>,
        postCountSinceLastSave := postCountSinceLastSave st + 1\<rparr>"

text \<open>Lines 298 to 302.\<close>

definition push_failed :: "int \<Rightarrow> post \<Rightarrow> err \<Rightarrow> state \<Rightarrow> state" where
  "push_failed i p e st =
     st\<lparr>progress := (progress st)
          \<lparr>failed := failed (progress st) @ [Failed i (title p) (message e)]\<rparr>\<rparr>"

text \<open>
  Lines 284 to 295, the body of the \<^verbatim>\<open>try\<close>. The limiter runs one job at a time and
  hands back the result or the rejection of the job, so only its spacing in real time is
  left out. \<open>n\<close> is \<^verbatim>\<open>postsData.length\<close>.
\<close>

definition try_item ::
  "env \<Rightarrow> nat \<Rightarrow> int \<Rightarrow> post \<Rightarrow> state \<Rightarrow> world \<Rightarrow> err option \<times> state \<times> world" where
  "try_item ev n i p st w =
     (case postToBloggerWithRetry ev p (postedIds st) (existingTitles st) 1 w of
        (Inl e, ids, ts, w1) \<Rightarrow> (Some e, st\<lparr>postedIds := ids, existingTitles := ts\<rparr>, w1)
      | (Inr result, ids, ts, w1) \<Rightarrow>
         (let st1 = advance i (st\<lparr>postedIds := ids, existingTitles := ts\<rparr>)
          in if postCountSinceLastSave st1 \<ge> 5 \<or> i = int n - 1 then
               (case saveJsonFile ev (Progress (progress st1)) w1 of
                  (Some e, w2) \<Rightarrow> (Some e, st1, w2)
                | (None, w2) \<Rightarrow> (None, st1\<lparr>postCountSinceLastSave := 0\<rparr>, w2))
             else (None, st1, w1)))"

text \<open>Lines 297 to 312, the \<^verbatim>\<open>catch\<close> of the loop body.\<close>

definition catch_item ::
  "env \<Rightarrow> int \<Rightarrow> post \<Rightarrow> err \<Rightarrow> state \<Rightarrow> world \<Rightarrow> state completion \<times> world" where
  "catch_item ev i p e st w =
     (let st1 = push_failed i p e st
      in case saveJsonFile ev (Progress (progress st1)) w of
           (Some e1, w1) \<Rightarrow> (Throw e1, w1)
         | (None, w1) \<Rightarrow>
            (let w2 = sendWhatsAppMessage ev (ErrorPosting i (title p) (message e)) w1
             in if str_includes (message e) ''Rate limit exceeded'' then
                  (case generateReport ev (successCount_of (progress st1)) (failed (progress st1))
                          (''Terminated due to rate limit: '' @ message e) w2 of
                     (Some e2, w3) \<Rightarrow> (Throw e2, w3)
                   | (None, w3) \<Rightarrow> (Exit 1, w3))
                else (Normal st1, w2)))"

text \<open>Lines 316 to 323.\<close>

definition pacing_delay :: "nat \<Rightarrow> nat" where
  "pacing_delay posted =
     (if posted \<ge> 40 \<and> posted < 45 then 30000
      else if posted \<ge> 45 then 33000
      else BASE_DELAY)"

definition pace :: "nat \<Rightarrow> int \<Rightarrow> state \<Rightarrow> world \<Rightarrow> world" where
  "pace n i st w =
     (if i < int n - 1 then w\<lparr>trace := trace w @ [Pace (pacing_delay (size_of (postedIds st)))]\<rparr>
      else w)"

text \<open>Lines 280 to 327, one round of the \<^verbatim>\<open>for\<close> loop.\<close>

definition iteration ::
  "env \<Rightarrow> entry list \<Rightarrow> int \<Rightarrow> state \<Rightarrow> world \<Rightarrow> state completion \<times> world" where
  "iteration ev postsData i st w =
     (case entry_at postsData i of
        Inl e \<Rightarrow> (Throw e, w\<lparr>trace := trace w @ [Visit i]\<rparr>)
      | Inr p \<Rightarrow>
         (case try_item ev (length postsData) i p st (w\<lparr>trace := trace w @ [Visit i]\<rparr>) of
            (None, st1, w1) \<Rightarrow> (Normal st1, pace (length postsData) i st1 w1)
          | (Some e, st1, w1) \<Rightarrow>
             (case catch_item ev i p e st1 w1 of
                (Normal st2, w2) \<Rightarrow> (Normal st2, pace (length postsData) i st2 w2)
              | r \<Rightarrow> r)))"

text \<open>Line 279: the loop, from index \<open>i\<close> on.\<close>

function loop ::
  "env \<Rightarrow> entry list \<Rightarrow> int \<Rightarrow> state \<Rightarrow> world \<Rightarrow> state completion \<times> world" where
  "loop ev postsData i st w =
     (if i < int (length postsData) then
        (case iteration ev postsData i st w of
           (Normal st1, w1) \<Rightarrow> loop ev postsData (i + 1) st1 w1
         | r \<Rightarrow> r)
      else (Normal st, w))"
  by pat_completeness auto
termination
  by (relation "measure (\<lambda>(ev, postsData, i, st, w). nat (int (length postsData) - i))") auto

text \<open>Lines 331 to 345.\<close>

definition finalize :: "env \<Rightarrow> state \<Rightarrow> world \<Rightarrow> unit completion \<times> world" where
  "finalize ev st w =
     (let successCount = successCount_of (progress st);
          saved = (if length (failed (progress st)) > 0
                   then saveJsonFile ev (FailedPosts (failed (progress st))) w
                   else (None, w))
      in case saved of
           (Some e, w1) \<Rightarrow> (Throw e, w1)
         | (None, w1) \<Rightarrow>
            (case generateReport ev successCount (failed (progress st)) ''Completed normally'' w1 of
               (Some e, w2) \<Rightarrow> (Throw e, w2)
             | (None, w2) \<Rightarrow>
                 (Exit 0, sendWhatsAppMessage ev
                            (Finished successCount (length (failed (progress st)))) w2)))"

text \<open>Lines 252 to 346. \<open>None\<close>: the listing of the remote titles never ends.\<close>

definition postToBlogger :: "env \<Rightarrow> world \<Rightarrow> (unit completion \<times> world) option" where
  "postToBlogger ev w =
     (if \<not> required_vars ev then Some (Exit 1, w)
      else case loadJsonFile (posts_json w) [] of
        Inl e \<Rightarrow> Some (Exit 1, w)
      | Inr postsData \<Rightarrow>
         (case loadProgress w of
            Inl e \<Rightarrow> Some (Throw e, w)
          | Inr pr \<Rightarrow>
             (case loadPostedIds w of
                Inl e \<Rightarrow> Some (Throw e, w)
              | Inr ids \<Rightarrow>
                 (case fetchExistingTitles ev w of
                    None \<Rightarrow> None
                  | Some (Inl e, w1) \<Rightarrow> Some (Throw e, w1)
                  | Some (Inr ts, w1) \<Rightarrow>
                     (case loop ev postsData (lastProcessed pr + 1)
                             \<lparr>progress = pr, postedIds = ids, existingTitles = ts,
                              postCountSinceLastSave = 0\<rparr>
                             (sendWhatsAppMessage ev
                                (Starting (length postsData) (size_of ids)) w1) of
                        (Normal st, w2) \<Rightarrow> Some (finalize ev st w2)
                      | (Throw e, w2) \<Rightarrow> Some (Throw e, w2)
                      | (Exit c, w2) \<Rightarrow> Some (Exit c, w2))))))"

text \<open>
  Lines 349 to 355: the handler of a rejected \<^verbatim>\<open>postToBlogger()\<close>. It reads the cursor file
  again, without the repair of line 266, so \<^verbatim>\<open>progress.failed.length\<close> throws when the file
  has no \<^verbatim>\<open>failed\<close>. An error thrown inside the handler is an unhandled rejection, on
  which Node ends the process with code 1. The result is the exit code of the process and
  the world it leaves.
\<close>

definition fatal_handler :: "env \<Rightarrow> err \<Rightarrow> world \<Rightarrow> nat \<times> world" where
  "fatal_handler ev e w =
     (case loadJsonFile (progress_json w) default_progress of
        Inl e1 \<Rightarrow> (1, w)
      | Inr pf \<Rightarrow>
         (case file_failed pf of
            None \<Rightarrow> (1, w)
          | Some fs \<Rightarrow>
             (case generateReport ev (file_lastProcessed pf + 1 - int (length fs)) fs
                     (''Fatal error: '' @ message e @ '' (code: '' @ show_code (code e) @ '')'') w of
                (Some e2, w1) \<Rightarrow> (1, w1)
              | (None, w1) \<Rightarrow> (1, w1))))"

definition main :: "env \<Rightarrow> world \<Rightarrow> (nat \<times> world) option" where
  "main ev w =
     (case postToBlogger ev w of
        None \<Rightarrow> None
      | Some (Exit c, w1) \<Rightarrow> Some (c, w1)
      | Some (Throw e, w1) \<Rightarrow> Some (fatal_handler ev e w1)
      | Some (Normal u, w1) \<Rightarrow> Some (0, w1))"

section \<open>Observations on a run\<close>

text \<open>The indices for which the loop body was entered, in order.\<close>

fun visited :: "event list \<Rightarrow> int list" where
  "visited [] = []"
| "visited (Visit i # es) = i # visited es"
| "visited (e # es) = visited es"

text \<open>The cursor values written to \<^verbatim>\<open>progress.json\<close>, in order.\<close>

fun persisted_cursors :: "event list \<Rightarrow> int list" where
  "persisted_cursors [] = []"
| "persisted_cursors (Saved (Progress pr) # es) = lastProcessed pr # persisted_cursors es"
| "persisted_cursors (e # es) = persisted_cursors es"

text \<open>The waits before a retry, in order.\<close>

fun backoffs :: "event list \<Rightarrow> nat list" where
  "backoffs [] = []"
| "backoffs (Backoff d # es) = d # backoffs es"
| "backoffs (e # es) = backoffs es"

text \<open>The waits between items, in order.\<close>

fun paces :: "event list \<Rightarrow> nat list" where
  "paces [] = []"
| "paces (Pace d # es) = d # paces es"
| "paces (e # es) = paces es"

text \<open>The world that \<^verbatim>\<open>postToBloggerWithRetry\<close> leaves.\<close>

definition world_after :: "'a \<times> 'b \<times> 'c \<times> world \<Rightarrow> world" where
  "world_after r = snd (snd (snd r))"

text \<open>
  What attempts \<open>a\<close>, \<open>a + 1\<close>, ... do when each insert call is rejected with \<open>e\<close> and
  \<open>n\<close> retries follow the first of them.
\<close>

fun failing_attempts :: "request \<Rightarrow> err \<Rightarrow> nat \<Rightarrow> nat \<Rightarrow> event list" where
  "failing_attempts rq e a 0 = [Insert rq]"
| "failing_attempts rq e a (Suc n) =
     Insert rq # Backoff (retry_wait e a) # failing_attempts rq e (Suc a) n"

text \<open>
  The events of lines 196 to 240: insert calls, waits, and the two sets written. The
  attempts for one post add such events to the trace and leave the other files alone.
\<close>

fun attempt_event :: "event \<Rightarrow> bool" where
  "attempt_event (Insert rq) = True"
| "attempt_event (Backoff d) = True"
| "attempt_event (Saved (PostedIds xs)) = True"
| "attempt_event (Saved (ExistingTitles xs)) = True"
| "attempt_event e = False"

definition attempt_frame :: "world \<Rightarrow> world \<Rightarrow> bool" where
  "attempt_frame w w1 =
     ((\<exists>tr. trace w1 = trace w @ tr \<and> list_all attempt_event tr) \<and>
      posts_json w1 = posts_json w \<and> progress_json w1 = progress_json w \<and>
      failed_posts_json w1 = failed_posts_json w \<and> reports w1 = reports w)"

section \<open>The classification in the words of the specification\<close>

text \<open>
  Section 4.3, step 4 of the specification: a quota failure is "HTTP 403 with
  quota-related reason, or message pattern quotaExceeded / Daily Limit Exceeded"; a
  rate-limit failure is "HTTP 429, or message pattern User Rate Limit Exceeded / too many
  requests, or structured reason rateLimitExceeded / userRateLimitExceeded". A reason is
  read as quota-related when it names a quota or a daily limit. Step 5 gives the wait.
\<close>

definition quota_related :: "string \<Rightarrow> bool" where
  "quota_related r =
     (str_includes r ''quota'' \<or> str_includes r ''Quota'' \<or> str_includes r ''dailyLimit'')"

definition spec_quota_failure :: "err \<Rightarrow> bool" where
  "spec_quota_failure e =
     ((code e = NumCode 403 \<and>
       (case errors e of None \<Rightarrow> False | Some rs \<Rightarrow> list_ex quota_related rs)) \<or>
      str_includes (message e) ''quotaExceeded'' \<or>
      str_includes (message e) ''Daily Limit Exceeded'')"

definition spec_rate_limit_failure :: "err \<Rightarrow> bool" where
  "spec_rate_limit_failure e =
     (code e = NumCode 429 \<or>
      str_includes (message e) ''User Rate Limit Exceeded'' \<or>
      str_includes (message e) ''too many requests'' \<or>
      (case errors e of
         None \<Rightarrow> False
       | Some rs \<Rightarrow> list_ex (\<lambda>r. r = ''rateLimitExceeded'' \<or> r = ''userRateLimitExceeded'') rs))"

definition spec_retry_wait :: "err \<Rightarrow> nat \<Rightarrow> nat" where
  "spec_retry_wait e a =
     (if spec_quota_failure e then 3600000
      else if code e = NumCode 429 then 60000
      else 10000 * 2 ^ (a - 1))"

section \<open>Scenarios\<close>

subsection \<open>Errors\<close>

text \<open>What \<^verbatim>\<open>fs.readFile\<close> throws on a file that does not exist.\<close>

definition enoent :: err where
  "enoent = \<lparr>message = ''ENOENT: no such file or directory'', code = StrCode ''ENOENT'',
             errors = None\<rparr>"

text \<open>
  Errors of the remote: the quota used up; a daily limit reported without a status; no
  permission; a failure of the server; and an error that no line of the retry logic
  accepts, with the words the driver looks for in its message.
\<close>

definition quota_exceeded :: err where
  "quota_exceeded =
     \<lparr>message = ''quotaExceeded'', code = NumCode 403, errors = Some [''quotaExceeded'']\<rparr>"

definition daily_limit :: err where
  "daily_limit = \<lparr>message = ''Daily Limit Exceeded'', code = NoCode, errors = None\<rparr>"

definition forbidden :: err where
  "forbidden = \<lparr>message = ''The caller does not have permission'', code = NumCode 403,
                errors = Some [''forbidden'']\<rparr>"

definition backend_error :: err where
  "backend_error =
     \<lparr>message = ''Backend Error'', code = NumCode 500, errors = Some [''backendError'']\<rparr>"



subsection \<open>Collaborators\<close>

text \<open>
  A configured process on a disk that takes every write, in front of a blog with no posts,
  whose \<open>k\<close>-th insert call is answered by \<open>reply k\<close>.
\<close>

definition remote :: "(nat \<Rightarrow> insert_reply) \<Rightarrow> env" where
  "remote reply =
     \<lparr>required_vars = True, whatsapp = True, insert_reply = reply,
      list_reply = (\<lambda>k. Listed [] False), save_error = (\<lambda>k. None)\<rparr>"

definition accepting :: env where
  "accepting = remote (\<lambda>k. Resolved ''url'')"

definition always_rejecting :: "err \<Rightarrow> env" where
  "always_rejecting e = remote (\<lambda>k. Rejected e)"

definition once_rejecting :: "err \<Rightarrow> env" where
  "once_rejecting e = remote (\<lambda>k. if k = 0 then Rejected e else Resolved ''url'')"



subsection \<open>Batches and working directories\<close>

definition titled :: "string \<Rightarrow> post" where
  "titled t = \<lparr>title = t, content = ''<p>text</p>'', labels = None\<rparr>"

definition two_posts :: "entry list" where
  "two_posts = [Post (titled ''A''), Post (titled ''B'')]"


definition five_posts :: "entry list" where
  "five_posts = [Post (titled ''A''), Post (titled ''B''), Post (titled ''C''),
                 Post (titled ''D''), Post (titled ''E'')]"

text \<open>A batch whose first entry has no title.\<close>

definition first_untitled :: "entry list" where
  "first_untitled = [NoTitle, Post (titled ''B'')]"

text \<open>A working directory that holds \<^verbatim>\<open>posts.json\<close> only, before anything has happened.\<close>

definition fresh :: "entry list \<Rightarrow> world" where
  "fresh postsData =
     \<lparr>posts_json = Content postsData, posted_ids_json = Failing enoent,
      progress_json = Failing enoent, existing_titles_json = Failing enoent,
      failed_posts_json = Failing enoent, reports = [],
      n_insert = 0, n_list = 0, n_save = 0, trace = []\<rparr>"

text \<open>
  That batch in a working directory whose \<^verbatim>\<open>progress.json\<close> holds the cursor -1 and no
  \<^verbatim>\<open>failed\<close> member.
\<close>

definition bare_cursor :: world where
  "bare_cursor = (fresh first_untitled)
     \<lparr>progress_json := Content \<lparr>file_lastProcessed = - 1, file_failed = None\<rparr>\<rparr>"


text \<open>The variables of a first run before its loop, on a blog with no posts.\<close>

definition start_state :: state where
  "start_state = \<lparr>progress = \<lparr>lastProcessed = - 1, failed = []\<rparr>, postedIds = [],
                   existingTitles = [], postCountSinceLastSave = 0\<rparr>"

text \<open>
  A batch of five, of which an earlier run has published the first two and left the
  cursor at index 1.
\<close>

definition resumed :: world where
  "resumed = (fresh five_posts)
     \<lparr>posted_ids_json := Content [''A'', ''B''],
      existing_titles_json := Content [''A'', ''B''],
      progress_json := Content \<lparr>file_lastProcessed = 1, file_failed = Some []\<rparr>\<rparr>"

text \<open>
  The working directory a run leaves in which both posts of a batch of two failed:
  the cursor still at -1, both entries in the failed list.
\<close>

definition after_failures :: world where
  "after_failures = (fresh two_posts)
     \<lparr>progress_json := Content \<lparr>file_lastProcessed = - 1,
                                  file_failed = Some [Failed 0 ''A'' ''Backend Error'',
                                            Failed 1 ''B'' ''Backend Error'']\<rparr>,
      existing_titles_json := Content [],
      failed_posts_json := Content [Failed 0 ''A'' ''Backend Error'',
                                    Failed 1 ''B'' ''Backend Error'']\<rparr>"

text \<open>
  A working directory in which earlier runs have published 38 posts, and a batch of
  eight posts that are not among them.
\<close>

definition earlier_titles :: "string list" where
  "earlier_titles = map (\<lambda>k. replicate (Suc k) CHR ''x'') [0..<38]"

definition eight_new_posts :: "post list" where
  "eight_new_posts = map titled [''A'', ''B'', ''C'', ''D'', ''E'', ''F'', ''G'', ''H'']"

definition busy :: world where
  "busy = (fresh (map Post eight_new_posts))
     \<lparr>posted_ids_json := Content earlier_titles,
      existing_titles_json := Content earlier_titles\<rparr>"

section \<open>Basic facts\<close>

declare loop.simps [simp del]
declare postToBloggerWithRetry.simps [simp del]
declare str_includes.simps [simp del]

lemma str_includes_sublist: "str_includes s p = sublist p s"
  by (induction s) (auto simp: sublist_Cons_right str_includes.simps)

lemma set_add: "set (add s x) = insert x (set s)"
  by (auto simp: add_def)

lemma set_foldl_add: "set (foldl add s xs) = set s \<union> set xs"
  by (induction xs arbitrary: s) (auto simp: set_add)

lemma set_new_Set: "set (new_Set xs) = set xs"
  by (simp add: new_Set_def set_foldl_add)

lemma distinct_add: "distinct s \<Longrightarrow> distinct (add s x)"
  by (simp add: add_def)

lemma distinct_foldl_add: "distinct s \<Longrightarrow> distinct (foldl add s xs)"
  by (induction xs arbitrary: s) (simp_all add: distinct_add)

lemma distinct_new_Set: "distinct (new_Set xs)"
  by (simp add: new_Set_def distinct_foldl_add)

lemma size_of_card: "distinct s \<Longrightarrow> size_of s = card (set s)"
  by (simp add: size_of_def distinct_card)

lemma saveJsonFile_ok:
  "\<forall>k. save_error ev k = None \<Longrightarrow>
   saveJsonFile ev fw w = (None, written fw w)"
  by (simp add: saveJsonFile_def)

lemma saveJsonFile_n_insert: "n_insert (snd (saveJsonFile ev fw w)) = n_insert w"
  by (simp add: saveJsonFile_def written_def store_def split: option.splits file_write.splits)

lemma loop_done: "\<not> i < int (length ps) \<Longrightarrow> loop ev ps i st w = (Normal st, w)"
  by (simp add: loop.simps)

lemma loop_step:
  "i < int (length ps) \<Longrightarrow>
   loop ev ps i st w =
     (case iteration ev ps i st w of
        (Normal st1, w1) \<Rightarrow> loop ev ps (i + 1) st1 w1
      | r \<Rightarrow> r)"
  by (simp add: loop.simps)

subsection \<open>The title cache\<close>

lemma list_pages_frame:
  assumes "list_pages ev acc w = Some y"
  shows "\<exists>k. snd y = w\<lparr>n_list := k\<rparr>"
proof (rule list_pages.raw_induct
         [where P = "\<lambda>ev acc w y. \<exists>k. snd y = w\<lparr>n_list := k\<rparr>", OF _ assms])
  fix lp ev acc w y
  assume IH: "\<And>ev acc w y. lp ev acc w = Some y \<Longrightarrow> \<exists>k. snd y = w\<lparr>n_list := k\<rparr>"
    and body: "(case list_reply ev (n_list w) of
        Listed ts token \<Rightarrow>
          if token then lp ev (foldl add acc ts) (w\<lparr>n_list := n_list w + 1\<rparr>)
          else Some (foldl add acc ts, w\<lparr>n_list := n_list w + 1\<rparr>)
      | ListFailed e \<Rightarrow> Some (acc, w\<lparr>n_list := n_list w + 1\<rparr>)) = Some y"
  show "\<exists>k. snd y = w\<lparr>n_list := k\<rparr>"
  proof (cases "list_reply ev (n_list w)")
    case (ListFailed e)
    with body show ?thesis by auto
  next
    case (Listed xs token)
    show ?thesis
    proof (cases token)
      case True
      with Listed body have "lp ev (foldl add acc xs) (w\<lparr>n_list := n_list w + 1\<rparr>) = Some y"
        by simp
      from IH[OF this] show ?thesis by auto
    next
      case False
      with Listed body show ?thesis by auto
    qed
  qed
qed

text \<open>
  When every write succeeds and the listing ends, the titles are there, the cache file
  holds them, and nothing else has changed but the cache file and the call counters.
\<close>

lemma fetch_frame:
  assumes "\<forall>k. save_error ev k = None" and "fetchExistingTitles ev w \<noteq> None"
  shows "\<exists>ts w1 xs tr. fetchExistingTitles ev w = Some (Inr ts, w1) \<and>
           existing_titles_json w1 = Content xs \<and> set xs = set ts \<and>
           posts_json w1 = posts_json w \<and> posted_ids_json w1 = posted_ids_json w \<and>
           progress_json w1 = progress_json w \<and> failed_posts_json w1 = failed_posts_json w \<and>
           reports w1 = reports w \<and> n_insert w1 = n_insert w \<and>
           trace w1 = trace w @ tr \<and> set tr \<subseteq> range (\<lambda>xs. Saved (ExistingTitles xs))"
proof -
  have refresh: ?thesis if r: "fetchExistingTitles ev w = refresh_titles ev w"
  proof -
    from assms(2) r obtain ts w0 where lp: "list_pages ev [] w = Some (ts, w0)"
      by (auto simp: refresh_titles_def split: option.splits)
    from list_pages_frame[OF lp] obtain k where w0: "w0 = w\<lparr>n_list := k\<rparr>" by auto
    show ?thesis
      using assms(1) lp w0 r
      by (simp add: refresh_titles_def saveJsonFile_def written_def store_def)
  qed
  show ?thesis
  proof (cases "loadJsonFile (existing_titles_json w) []")
    case (Inl e)
    then show ?thesis using refresh by (simp add: fetchExistingTitles_def)
  next
    case (Inr cached)
    show ?thesis
    proof (cases "length cached > 0")
      case True
      with Inr have "existing_titles_json w = Content cached"
        by (auto simp: loadJsonFile_def split: jfile.splits if_splits)
      with True Inr show ?thesis
        by (simp add: fetchExistingTitles_def set_new_Set)
    next
      case False
      with Inr show ?thesis using refresh by (simp add: fetchExistingTitles_def)
    qed
  qed
qed

subsection \<open>One post\<close>

lemma skip_known:
  "has ids (title p) \<or> has ts (title p) \<Longrightarrow>
   postToBloggerWithRetry ev p ids ts a w = (Inr Skipped, ids, ts, w)"
  by (simp add: postToBloggerWithRetry.simps publish_once_def)

lemma publish_once_n_insert:
  "n_insert (snd (snd (snd (publish_once ev p ids ts w)))) \<le> n_insert w + 1"
proof -
  have s: "n_insert w2 = n_insert w1" if "saveJsonFile ev fw w1 = (r, w2)" for fw w1 r w2
    using saveJsonFile_n_insert[of ev fw w1] that by simp
  show ?thesis
    by (auto simp: publish_once_def Let_def savePostedIds_def dest!: s
             split: insert_reply.splits prod.splits option.splits)
qed

lemma retry_n_insert:
  "n_insert (snd (snd (snd (postToBloggerWithRetry ev p ids ts a w))))
     \<le> n_insert w + (MAX_RETRIES - a) + 1"
proof (induction ev p ids ts a w rule: postToBloggerWithRetry.induct)
  case (1 ev p ids ts a w)
  obtain r ids1 ts1 w1 where po: "publish_once ev p ids ts w = (r, ids1, ts1, w1)"
    by (metis prod_cases4)
  from publish_once_n_insert[of ev p ids ts w] po
  have w1: "n_insert w1 \<le> n_insert w + 1" by simp
  show ?case
  proof (cases r)
    case (Inr res)
    with po w1 show ?thesis by (simp add: postToBloggerWithRetry.simps)
  next
    case (Inl e)
    show ?thesis
    proof (cases "isRateLimitError e \<and> a < MAX_RETRIES")
      case True
      have "n_insert (snd (snd (snd (postToBloggerWithRetry ev p ids1 ts1 (a + 1)
               (w1\<lparr>trace := trace w1 @ [Backoff (retry_wait e a)]\<rparr>)))))
            \<le> n_insert w1 + (MAX_RETRIES - (a + 1)) + 1"
        using "1.IH"[of r "(ids1, ts1, w1)" e ids1 "(ts1, w1)" ts1 w1] po Inl True by simp
      with True po Inl w1 show ?thesis
        by (subst postToBloggerWithRetry.simps) simp
    next
      case False
      with po Inl w1 show ?thesis
        by (subst postToBloggerWithRetry.simps) auto
    qed
  qed
qed

subsection \<open>A batch of one known title\<close>

lemma run_of_known_title:
  assumes vars: "required_vars ev"
    and saves: "\<forall>k. save_error ev k = None"
    and posts: "posts_json w = Content [Post p]"
    and ids: "posted_ids_json w = Content ids" "title p \<in> set ids"
    and pr: "loadProgress w = Inr pr"
            "- 1 \<le> lastProcessed pr"
    and fetch: "fetchExistingTitles ev w \<noteq> None"
  shows "\<exists>w'. main ev w = Some (0, w') \<and> n_insert w' = n_insert w"
proof -
  from fetch_frame[OF saves fetch] obtain ts w1 xs tr where
    f: "fetchExistingTitles ev w = Some (Inr ts, w1)"
    and w1: "existing_titles_json w1 = Content xs"
       "posted_ids_json w1 = posted_ids_json w" "n_insert w1 = n_insert w"
    by blast
  have skip: "postToBloggerWithRetry ev p (new_Set ids) ts 1 w' =
                (Inr Skipped, new_Set ids, ts, w')" for w'
    using ids(2) by (simp add: skip_known has_def set_new_Set)
  show ?thesis
  proof (cases "lastProcessed pr = - 1")
    case True
    show ?thesis
      using vars posts ids pr f w1 True skip
      by (simp add: main_def postToBlogger_def loadJsonFile_def loadPostedIds_def
          loop_step loop_done iteration_def entry_at_def try_item_def pace_def advance_def
          saveJsonFile_ok[OF saves] written_def store_def finalize_def generateReport_def
          sendWhatsAppMessage_def Let_def)
  next
    case False
    with pr(2) have "\<not> lastProcessed pr + 1 < int (length [Post p])" by simp
    then show ?thesis
      using vars posts ids pr f w1
      by (simp add: main_def postToBlogger_def loadJsonFile_def loadPostedIds_def
          loop_done saveJsonFile_ok[OF saves] written_def store_def finalize_def
          generateReport_def sendWhatsAppMessage_def Let_def)
  qed
qed

subsection \<open>Retries\<close>

lemma publish_once_rejected:
  "\<not> has ids (title p) \<Longrightarrow> \<not> has ts (title p) \<Longrightarrow>
   insert_reply ev (n_insert w) = Rejected e \<Longrightarrow>
   publish_once ev p ids ts w =
     (Inl e, ids, ts,
      w\<lparr>n_insert := n_insert w + 1, trace := trace w @ [Insert (request_of p)]\<rparr>)"
  by (simp add: publish_once_def)

lemma retry_again:
  "publish_once ev p ids ts w = (Inl e, ids1, ts1, w1) \<Longrightarrow> isRateLimitError e \<Longrightarrow>
   a < MAX_RETRIES \<Longrightarrow>
   postToBloggerWithRetry ev p ids ts a w =
     postToBloggerWithRetry ev p ids1 ts1 (a + 1)
       (w1\<lparr>trace := trace w1 @ [Backoff (retry_wait e a)]\<rparr>)"
  by (subst postToBloggerWithRetry.simps) simp

lemma retry_exhausted:
  "publish_once ev p ids ts w = (Inl e, ids1, ts1, w1) \<Longrightarrow> isRateLimitError e \<Longrightarrow>
   \<not> a < MAX_RETRIES \<Longrightarrow>
   postToBloggerWithRetry ev p ids ts a w = (Inl (rate_limit_exceeded a e), ids1, ts1, w1)"
  by (subst postToBloggerWithRetry.simps) simp

lemma retry_fatal:
  "publish_once ev p ids ts w = (Inl e, ids1, ts1, w1) \<Longrightarrow> \<not> isRateLimitError e \<Longrightarrow>
   postToBloggerWithRetry ev p ids ts a w = (Inl e, ids1, ts1, w1)"
  by (subst postToBloggerWithRetry.simps) simp

lemma retry_returned:
  "publish_once ev p ids ts w = (Inr r, ids1, ts1, w1) \<Longrightarrow>
   postToBloggerWithRetry ev p ids ts a w = (Inr r, ids1, ts1, w1)"
  by (subst postToBloggerWithRetry.simps) simp

lemma always_rejected:
  assumes rej: "\<forall>k. insert_reply ev k = Rejected e" and rl: "isRateLimitError e"
    and new: "\<not> has ids (title p)" "\<not> has ts (title p)"
  shows "a + n = MAX_RETRIES \<Longrightarrow>
    postToBloggerWithRetry ev p ids ts a w =
      (Inl (rate_limit_exceeded MAX_RETRIES e), ids, ts,
       w\<lparr>n_insert := n_insert w + n + 1,
         trace := trace w @ failing_attempts (request_of p) e a n\<rparr>)"
proof (induction n arbitrary: a w)
  case 0
  have po: "publish_once ev p ids ts w =
     (Inl e, ids, ts, w\<lparr>n_insert := n_insert w + 1, trace := trace w @ [Insert (request_of p)]\<rparr>)"
    using publish_once_rejected[OF new] rej by simp
  from 0 have "\<not> a < MAX_RETRIES" by simp
  from retry_exhausted[OF po rl this] 0 show ?case by simp
next
  case (Suc n)
  have po: "publish_once ev p ids ts w =
     (Inl e, ids, ts, w\<lparr>n_insert := n_insert w + 1, trace := trace w @ [Insert (request_of p)]\<rparr>)"
    using publish_once_rejected[OF new] rej by simp
  from Suc.prems have lt: "a < MAX_RETRIES" and nx: "Suc a + n = MAX_RETRIES" by simp_all
  show ?case
    by (simp add: retry_again[OF po rl lt] Suc.IH[OF nx])
qed

lemma rate_limit_message:
  "str_includes (message (rate_limit_exceeded a e)) ''Rate limit exceeded''"
  by (simp add: rate_limit_exceeded_def new_Error_def str_includes_sublist)

lemma terminated_reason: "str_includes (''Terminated due to rate limit: '' @ m) ''rate limit''"
proof -
  have "''Terminated due to rate limit: '' @ m =
        ''Terminated due to '' @ ''rate limit'' @ ('': '' @ m)"
    by simp
  then show ?thesis unfolding str_includes_sublist
    by (metis sublist_appendI)
qed

subsection \<open>The trace\<close>

lemma visited_append: "visited (xs @ ys) = visited xs @ visited ys"
  by (induction xs rule: visited.induct) auto

lemma visited_saved: "set tr \<subseteq> range (\<lambda>xs. Saved (f xs)) \<Longrightarrow> visited tr = []"
  by (induction tr rule: visited.induct) auto

lemma visited_failing_attempts: "visited (failing_attempts rq e a n) = []"
  by (induction n arbitrary: a) auto

subsection \<open>Reports and the start of a run\<close>

lemma generateReport_ok:
  assumes "\<forall>k. save_error ev k = None" "loadPostedIds w = Inr ids"
    "existing_titles_json w = Content xs"
  shows "generateReport ev sc fl reason w =
     (None, sendWhatsAppMessage ev (JobReport (build_report sc fl reason ids xs))
              (written (Report (build_report sc fl reason ids xs)) w))"
  using assms by (simp add: generateReport_def loadJsonFile_def saveJsonFile_ok)

lemma postToBlogger_started:
  assumes "required_vars ev" "posts_json w = Content ps"
    "loadProgress w = Inr pr"
    "loadPostedIds w = Inr ids" "fetchExistingTitles ev w = Some (Inr ts, w1)"
  shows "postToBlogger ev w =
    Some (case loop ev ps (lastProcessed pr + 1)
                 \<lparr>progress = pr, postedIds = ids, existingTitles = ts,
                  postCountSinceLastSave = 0\<rparr>
                 (sendWhatsAppMessage ev (Starting (length ps) (size_of ids)) w1) of
            (Normal st, w2) \<Rightarrow> finalize ev st w2
          | (Throw e, w2) \<Rightarrow> (Throw e, w2)
          | (Exit c, w2) \<Rightarrow> (Exit c, w2))"
  using assms
  by (simp add: postToBlogger_def loadJsonFile_def split: prod.splits completion.splits)

subsection \<open>A run that meets a remote out of quota\<close>

lemma catch_item_rate_limit:
  assumes saves: "\<forall>k. save_error ev k = None" and ids: "loadPostedIds w = Inr ids"
    and xs: "existing_titles_json w = Content xs"
    and inc: "str_includes (message e) ''Rate limit exceeded''"
  shows "\<exists>w' r. catch_item ev i p e st w = (Exit 1, w') \<and> n_insert w' = n_insert w \<and>
           reports w' = reports w @ [r] \<and> str_includes (terminationReason r) ''rate limit'' \<and>
           visited (trace w') = visited (trace w)"
proof -
  let ?w2 = "sendWhatsAppMessage ev (ErrorPosting i (title p) (message e))
               (written (Progress (progress (push_failed i p e st))) w)"
  let ?r = "build_report (successCount_of (progress (push_failed i p e st)))
              (failed (progress (push_failed i p e st)))
              (''Terminated due to rate limit: '' @ message e) ids xs"
  let ?w3 = "sendWhatsAppMessage ev (JobReport ?r) (written (Report ?r) ?w2)"
  have 1: "loadPostedIds ?w2 = Inr ids"
    using ids by (simp add: loadPostedIds_def sendWhatsAppMessage_def written_def store_def)
  have 2: "existing_titles_json ?w2 = Content xs"
    using xs by (simp add: sendWhatsAppMessage_def written_def store_def)
  have r: "terminationReason ?r = ''Terminated due to rate limit: '' @ message e"
    by (simp add: build_report_def)
  have "catch_item ev i p e st w = (Exit 1, ?w3)"
    unfolding catch_item_def Let_def saveJsonFile_ok[OF saves] prod.case option.case
      generateReport_ok[OF saves 1 2] if_P[OF inc]
    by (rule refl)
  moreover have "n_insert ?w3 = n_insert w"
    by (simp add: sendWhatsAppMessage_def written_def store_def)
  moreover have "reports ?w3 = reports w @ [?r]"
    by (simp add: sendWhatsAppMessage_def written_def store_def)
  moreover have "str_includes (terminationReason ?r) ''rate limit''"
    unfolding r by (rule terminated_reason)
  moreover have "visited (trace ?w3) = visited (trace w)"
    by (simp add: sendWhatsAppMessage_def written_def store_def visited_append)
  ultimately show ?thesis by blast
qed

lemma run_rate_limited:
  assumes vars: "required_vars ev"
    and saves: "\<forall>k. save_error ev k = None"
    and rej: "\<forall>k. insert_reply ev k = Rejected e" and rl: "isRateLimitError e"
    and posts: "posts_json w = Content ps"
    and pr: "loadProgress w = Inr pr"
    and i: "0 \<le> lastProcessed pr + 1" "lastProcessed pr + 1 < int (length ps)"
           "ps ! nat (lastProcessed pr + 1) = Post p"
    and ids: "loadPostedIds w = Inr ids" "title p \<notin> set ids"
    and fetch: "fetchExistingTitles ev w = Some (Inr ts, w1)" "title p \<notin> set ts"
  shows "\<exists>w' r. main ev w = Some (1, w') \<and> n_insert w' = n_insert w + 5 \<and>
           reports w' = reports w @ [r] \<and> str_includes (terminationReason r) ''rate limit'' \<and>
           visited (trace w') = visited (trace w) @ [lastProcessed pr + 1]"
proof -
  from fetch(1) have "fetchExistingTitles ev w \<noteq> None" by simp
  from fetch_frame[OF saves this] fetch(1) obtain xs tr where
    w1: "existing_titles_json w1 = Content xs"
       "posted_ids_json w1 = posted_ids_json w" "n_insert w1 = n_insert w"
       "reports w1 = reports w" "trace w1 = trace w @ tr"
       "set tr \<subseteq> range (\<lambda>xs. Saved (ExistingTitles xs))"
    by auto
  have v: "visited tr = []" using w1(6) by (rule visited_saved)
  have new: "\<not> has ids (title p)" "\<not> has ts (title p)"
    using ids(2) fetch(2) by (simp_all add: has_def)
  let ?i = "lastProcessed pr + 1"
  let ?st = "\<lparr>progress = pr, postedIds = ids, existingTitles = ts, postCountSinceLastSave = 0\<rparr>"
  let ?w2 = "sendWhatsAppMessage ev (Starting (length ps) (size_of ids)) w1"
  let ?w3 = "?w2\<lparr>trace := trace ?w2 @ [Visit ?i]\<rparr>"
  let ?w4 = "?w3\<lparr>n_insert := n_insert ?w3 + 4 + 1,
                 trace := trace ?w3 @ failing_attempts (request_of p) e 1 4\<rparr>"
  have att: "postToBloggerWithRetry ev p ids ts 1 ?w3 =
      (Inl (rate_limit_exceeded MAX_RETRIES e), ids, ts, ?w4)"
    by (rule always_rejected[OF rej rl new]) (simp add: MAX_RETRIES_def)
  have l4: "loadPostedIds ?w4 = Inr ids"
    using ids(1) w1(2) by (simp add: loadPostedIds_def sendWhatsAppMessage_def)
  have x4: "existing_titles_json ?w4 = Content xs"
    using w1(1) by (simp add: sendWhatsAppMessage_def)
  from catch_item_rate_limit[OF saves l4 x4 rate_limit_message, of ?i p MAX_RETRIES e ?st]
  obtain w' r where
    c: "catch_item ev ?i p (rate_limit_exceeded MAX_RETRIES e) ?st ?w4 = (Exit 1, w')"
    "n_insert w' = n_insert ?w4" "reports w' = reports ?w4 @ [r]"
    "str_includes (terminationReason r) ''rate limit''" "visited (trace w') = visited (trace ?w4)"
    by blast
  have it: "iteration ev ps ?i ?st ?w2 = (Exit 1, w')"
    using i c(1) att by (simp add: iteration_def entry_at_def try_item_def)
  have "main ev w = Some (1, w')"
    using i(2) it
    by (simp add: main_def postToBlogger_started[OF vars posts pr ids(1) fetch(1)] loop_step)
  moreover have "n_insert w' = n_insert w + 5"
    using c(2) w1(3) by (simp add: sendWhatsAppMessage_def)
  moreover have "reports w' = reports w @ [r]"
    using c(3) w1(4) by (simp add: sendWhatsAppMessage_def)
  moreover have "visited (trace w') = visited (trace w) @ [?i]"
    using c(5) w1(5) v
    by (simp add: sendWhatsAppMessage_def visited_append visited_failing_attempts)
  ultimately show ?thesis using c(4) by blast
qed

subsection \<open>Frames\<close>

lemma attempt_events_silent:
  "list_all attempt_event tr \<Longrightarrow> visited tr = [] \<and> paces tr = [] \<and> persisted_cursors tr = []"
  by (induction tr) (auto elim!: attempt_event.elims(2))

lemma paces_append: "paces (xs @ ys) = paces xs @ paces ys"
  by (induction xs rule: paces.induct) auto

lemma persisted_cursors_append:
  "persisted_cursors (xs @ ys) = persisted_cursors xs @ persisted_cursors ys"
  by (induction xs rule: persisted_cursors.induct) auto

lemma attempt_frame_refl: "attempt_frame w w"
  by (simp add: attempt_frame_def)

lemma attempt_frame_trans: "attempt_frame w w1 \<Longrightarrow> attempt_frame w1 w2 \<Longrightarrow> attempt_frame w w2"
  by (auto simp: attempt_frame_def)

lemma publish_once_frame:
  "attempt_frame w (world_after (publish_once ev p ids ts w))"
  by (auto simp: attempt_frame_def world_after_def publish_once_def Let_def savePostedIds_def
        saveJsonFile_def written_def store_def
      split: insert_reply.splits option.splits)

lemma retry_frame:
  "attempt_frame w (world_after (postToBloggerWithRetry ev p ids ts a w))"
proof (induction ev p ids ts a w rule: postToBloggerWithRetry.induct)
  case (1 ev p ids ts a w)
  obtain r ids1 ts1 w1 where po: "publish_once ev p ids ts w = (r, ids1, ts1, w1)"
    by (metis prod_cases4)
  from publish_once_frame[of w ev p ids ts] po
  have w1: "attempt_frame w w1" by (simp add: world_after_def)
  show ?case
  proof (cases r)
    case (Inr res)
    with po w1 show ?thesis by (simp add: postToBloggerWithRetry.simps world_after_def)
  next
    case (Inl e)
    show ?thesis
    proof (cases "isRateLimitError e \<and> a < MAX_RETRIES")
      case True
      let ?w2 = "w1\<lparr>trace := trace w1 @ [Backoff (retry_wait e a)]\<rparr>"
      have "attempt_frame ?w2 (world_after (postToBloggerWithRetry ev p ids1 ts1 (a + 1) ?w2))"
        using "1.IH"[of r "(ids1, ts1, w1)" e ids1 "(ts1, w1)" ts1 w1] po Inl True by simp
      moreover have "attempt_frame w ?w2"
        using w1 by (auto simp: attempt_frame_def)
      ultimately have "attempt_frame w (world_after (postToBloggerWithRetry ev p ids1 ts1 (a + 1) ?w2))"
        by (rule attempt_frame_trans[rotated])
      with True po Inl show ?thesis
        by (subst postToBloggerWithRetry.simps) simp
    next
      case False
      with po Inl w1 show ?thesis
        by (subst postToBloggerWithRetry.simps) (auto simp: world_after_def)
    qed
  qed
qed

lemma retry_silent:
  assumes "postToBloggerWithRetry ev p ids ts a w = (r, ids1, ts1, w1)"
  shows "visited (trace w1) = visited (trace w)" "paces (trace w1) = paces (trace w)"
    "persisted_cursors (trace w1) = persisted_cursors (trace w)"
    "progress_json w1 = progress_json w" "reports w1 = reports w"
    "failed_posts_json w1 = failed_posts_json w" "posts_json w1 = posts_json w"
  using retry_frame[of w ev p ids ts a] assms attempt_events_silent
  by (auto simp: attempt_frame_def world_after_def visited_append paces_append
        persisted_cursors_append)

lemma saveJsonFile_paces: "saveJsonFile ev fw w = (r, w1) \<Longrightarrow> paces (trace w1) = paces (trace w)"
  by (auto simp: saveJsonFile_def written_def paces_append split: option.splits)

lemma sendWhatsAppMessage_paces: "paces (trace (sendWhatsAppMessage ev m w)) = paces (trace w)"
  by (simp add: sendWhatsAppMessage_def paces_append)

lemma generateReport_paces:
  "generateReport ev sc fl reason w = (r, w1) \<Longrightarrow> paces (trace w1) = paces (trace w)"
  by (auto simp: generateReport_def sendWhatsAppMessage_paces dest: saveJsonFile_paces
      split: sum.splits prod.splits option.splits)

lemma try_item_paces:
  "try_item ev n i p st w = (r, st1, w1) \<Longrightarrow> paces (trace w1) = paces (trace w)"
  by (auto simp: try_item_def Let_def dest!: retry_silent(2) dest: saveJsonFile_paces
      split: prod.splits sum.splits option.splits if_splits)

lemma catch_item_paces:
  "catch_item ev i p e st w = (r, w1) \<Longrightarrow> paces (trace w1) = paces (trace w)"
  by (auto simp: catch_item_def Let_def sendWhatsAppMessage_paces
      dest!: saveJsonFile_paces generateReport_paces
      split: prod.splits option.splits if_splits)

lemma iteration_paces:
  assumes "iteration ev ps i st w = (r, w1)"
  shows "paces (trace w1) = paces (trace w) @
           (case r of Normal st1 \<Rightarrow>
              if i < int (length ps) - 1 then [pacing_delay (size_of (postedIds st1))] else []
            | _ \<Rightarrow> [])"
  using assms
  by (auto simp: iteration_def pace_def paces_append
      dest!: try_item_paces catch_item_paces
      split: sum.splits prod.splits option.splits completion.splits if_splits)

lemma pacing_delay_tiers:
  "pacing_delay n = (if n < 40 then 10000 else if n < 45 then 30000 else 33000)"
  by (simp add: pacing_delay_def BASE_DELAY_def)

lemma pacing_delay_mono: "m \<le> n \<Longrightarrow> pacing_delay m \<le> pacing_delay n"
  by (simp add: pacing_delay_tiers)

lemma iteration_after_try:
  "entry_at ps i = Inr p \<Longrightarrow>
   try_item ev (length ps) i p st (w\<lparr>trace := trace w @ [Visit i]\<rparr>) = (None, st1, w1) \<Longrightarrow>
   iteration ev ps i st w = (Normal st1, pace (length ps) i st1 w1)"
  by (simp add: iteration_def)

subsection \<open>A post that is published\<close>

lemma try_item_success:
  assumes saves: "\<forall>k. save_error ev k = None"
    and new: "\<not> has (postedIds st) (title p)" "\<not> has (existingTitles st) (title p)"
    and ok: "insert_reply ev (n_insert w) = Resolved url"
  shows "try_item ev n i p st w =
    (let ids = add (postedIds st) (title p); ts = add (existingTitles st) (title p);
         w1 = written (ExistingTitles ts) (written (PostedIds ids)
                (w\<lparr>n_insert := n_insert w + 1, trace := trace w @ [Insert (request_of p)]\<rparr>));
         st1 = advance i (st\<lparr>postedIds := ids, existingTitles := ts\<rparr>)
     in if postCountSinceLastSave st1 \<ge> 5 \<or> i = int n - 1
        then (None, st1\<lparr>postCountSinceLastSave := 0\<rparr>, written (Progress (progress st1)) w1)
        else (None, st1, w1))"
proof -
  have po: "publish_once ev p (postedIds st) (existingTitles st) w =
     (Inr (Success url), add (postedIds st) (title p), add (existingTitles st) (title p),
      written (ExistingTitles (add (existingTitles st) (title p)))
        (written (PostedIds (add (postedIds st) (title p)))
          (w\<lparr>n_insert := n_insert w + 1, trace := trace w @ [Insert (request_of p)]\<rparr>)))"
    using new ok
    by (simp add: publish_once_def Let_def savePostedIds_def saveJsonFile_ok[OF saves])
  show ?thesis
    by (simp add: try_item_def retry_returned[OF po] Let_def saveJsonFile_ok[OF saves])
qed

subsection \<open>An entry without a title\<close>

lemma iteration_untitled:
  "entry_at ps i = Inl e \<Longrightarrow>
   iteration ev ps i st w = (Throw e, w\<lparr>trace := trace w @ [Visit i]\<rparr>)"
  by (simp add: iteration_def)

lemma entry_at_untitled:
  "0 \<le> i \<Longrightarrow> i < int (length ps) \<Longrightarrow> ps ! nat i = NoTitle \<or> ps ! nat i = NonStringTitle \<Longrightarrow>
   \<exists>e. entry_at ps i = Inl e \<and> code e = NoCode"
  by (auto simp: entry_at_def new_Error_def)

lemma loop_untitled:
  assumes "0 \<le> i" "i < int (length ps)" "ps ! nat i = NoTitle \<or> ps ! nat i = NonStringTitle"
  shows "\<exists>e. loop ev ps i st w = (Throw e, w\<lparr>trace := trace w @ [Visit i]\<rparr>) \<and> code e = NoCode"
proof -
  from entry_at_untitled[OF assms] obtain e where e: "entry_at ps i = Inl e" "code e = NoCode"
    by blast
  show ?thesis
    using assms(2) e by (simp add: loop_step iteration_untitled)
qed

lemma loadProgress_file:
  "loadJsonFile (progress_json w) default_progress = Inr pf \<Longrightarrow> loadProgress w = Inr (repair pf)"
  by (simp add: loadProgress_def)

lemma fatal_handler_ok:
  assumes "\<forall>k. save_error ev k = None"
    "loadJsonFile (progress_json w) default_progress = Inr pf" "file_failed pf = Some fs"
    "loadPostedIds w = Inr ids" "existing_titles_json w = Content xs"
  shows "fatal_handler ev e w =
    (1, sendWhatsAppMessage ev
          (JobReport (build_report (file_lastProcessed pf + 1 - int (length fs)) fs
             (''Fatal error: '' @ message e @ '' (code: '' @ show_code (code e) @ '')'') ids xs))
          (written (Report (build_report (file_lastProcessed pf + 1 - int (length fs)) fs
             (''Fatal error: '' @ message e @ '' (code: '' @ show_code (code e) @ '')'') ids xs)) w))"
  using assms(2,3) by (simp add: fatal_handler_def generateReport_ok[OF assms(1,4,5)])

lemma fatal_handler_no_array:
  assumes "loadJsonFile (progress_json w) default_progress = Inr pf" "file_failed pf = None"
  shows "fatal_handler ev e w = (1, w)"
  using assms by (simp add: fatal_handler_def)

lemma fatal_handler_code: "fst (fatal_handler ev e w) = 1"
  by (simp add: fatal_handler_def split: sum.splits prod.splits option.splits)

lemma run_untitled:
  assumes vars: "required_vars ev"
    and saves: "\<forall>k. save_error ev k = None"
    and posts: "posts_json w = Content ps"
    and pf: "loadJsonFile (progress_json w) default_progress = Inr pf"
    and i: "0 \<le> file_lastProcessed pf + 1" "file_lastProcessed pf + 1 < int (length ps)"
           "ps ! nat (file_lastProcessed pf + 1) = NoTitle \<or>
            ps ! nat (file_lastProcessed pf + 1) = NonStringTitle"
    and ids: "loadPostedIds w = Inr ids"
    and fetch: "fetchExistingTitles ev w = Some (Inr ts, w1)"
  shows "\<exists>w'. main ev w = Some (1, w') \<and> progress_json w' = progress_json w \<and>
           n_insert w' = n_insert w \<and>
           visited (trace w') = visited (trace w) @ [file_lastProcessed pf + 1] \<and>
           (\<forall>fs. file_failed pf = Some fs \<longrightarrow>
              (\<exists>r. reports w' = reports w @ [r] \<and>
                 prefix ''Fatal error: '' (terminationReason r) \<and> failedPosts r = fs)) \<and>
           (file_failed pf = None \<longrightarrow> reports w' = reports w)"
proof -
  from fetch have "fetchExistingTitles ev w \<noteq> None" by simp
  from fetch_frame[OF saves this] fetch obtain xs tr where
    w1: "existing_titles_json w1 = Content xs"
       "posted_ids_json w1 = posted_ids_json w" "n_insert w1 = n_insert w"
       "reports w1 = reports w" "trace w1 = trace w @ tr"
       "set tr \<subseteq> range (\<lambda>xs. Saved (ExistingTitles xs))"
       "progress_json w1 = progress_json w"
    by auto
  have v: "visited tr = []" using w1(6) by (rule visited_saved)
  let ?i = "file_lastProcessed pf + 1"
  let ?st = "\<lparr>progress = repair pf, postedIds = ids, existingTitles = ts,
              postCountSinceLastSave = 0\<rparr>"
  let ?w2 = "sendWhatsAppMessage ev (Starting (length ps) (size_of ids)) w1"
  let ?w3 = "?w2\<lparr>trace := trace ?w2 @ [Visit ?i]\<rparr>"
  have lp: "lastProcessed (repair pf) = file_lastProcessed pf" by (simp add: repair_def)
  from loop_untitled[OF i, of ev ?st ?w2] obtain e where
    l: "loop ev ps ?i ?st ?w2 = (Throw e, ?w3)" by blast
  have m: "main ev w = Some (fatal_handler ev e ?w3)"
    unfolding main_def postToBlogger_started[OF vars posts loadProgress_file[OF pf] ids fetch] lp l
    by simp
  have p3: "loadJsonFile (progress_json ?w3) default_progress = Inr pf"
    using pf w1(7) by (simp add: sendWhatsAppMessage_def)
  have l3: "loadPostedIds ?w3 = Inr ids"
    using ids w1(2) by (simp add: loadPostedIds_def sendWhatsAppMessage_def)
  have x3: "existing_titles_json ?w3 = Content xs"
    using w1(1) by (simp add: sendWhatsAppMessage_def)
  have f3: "progress_json ?w3 = progress_json w" "n_insert ?w3 = n_insert w"
    "reports ?w3 = reports w" "visited (trace ?w3) = visited (trace w) @ [?i]"
    using w1(3,4,5,7) v by (simp_all add: sendWhatsAppMessage_def visited_append)
  show ?thesis
  proof (cases "file_failed pf")
    case None
    show ?thesis
      using m f3 None by (simp add: fatal_handler_no_array[OF p3 None])
  next
    case (Some fs)
    let ?reason = "''Fatal error: '' @ message e @ '' (code: '' @ show_code (code e) @ '')''"
    let ?r = "build_report (file_lastProcessed pf + 1 - int (length fs)) fs ?reason ids xs"
    let ?w4 = "sendWhatsAppMessage ev (JobReport ?r) (written (Report ?r) ?w3)"
    have m4: "main ev w = Some (1, ?w4)"
      using m by (simp add: fatal_handler_ok[OF saves p3 Some l3 x3])
    have r: "terminationReason ?r = ?reason" "failedPosts ?r = fs"
      by (simp_all add: build_report_def)
    have "prefix ''Fatal error: '' (terminationReason ?r)"
      unfolding r by (rule prefixI) simp
    moreover have "progress_json ?w4 = progress_json w"
      using w1(7) by (simp add: sendWhatsAppMessage_def written_def store_def)
    moreover have "n_insert ?w4 = n_insert w"
      using w1(3) by (simp add: sendWhatsAppMessage_def written_def store_def)
    moreover have "reports ?w4 = reports w @ [?r]"
      using w1(4) by (simp add: sendWhatsAppMessage_def written_def store_def)
    moreover have "visited (trace ?w4) = visited (trace w) @ [?i]"
      using w1(5) v by (simp add: sendWhatsAppMessage_def written_def store_def visited_append)
    ultimately show ?thesis using m4 r(2) Some by auto
  qed
qed

subsection \<open>The indices a run visits\<close>

lemma saveJsonFile_visited:
  "saveJsonFile ev fw w = (r, w1) \<Longrightarrow> visited (trace w1) = visited (trace w)"
  by (auto simp: saveJsonFile_def written_def visited_append split: option.splits)

lemma sendWhatsAppMessage_visited:
  "visited (trace (sendWhatsAppMessage ev m w)) = visited (trace w)"
  by (simp add: sendWhatsAppMessage_def visited_append)

lemma generateReport_visited:
  "generateReport ev sc fl reason w = (r, w1) \<Longrightarrow> visited (trace w1) = visited (trace w)"
  by (auto simp: generateReport_def sendWhatsAppMessage_visited dest: saveJsonFile_visited
      split: sum.splits prod.splits option.splits)

lemma try_item_visited:
  "try_item ev n i p st w = (r, st1, w1) \<Longrightarrow> visited (trace w1) = visited (trace w)"
  by (auto simp: try_item_def Let_def dest!: retry_silent(1) dest: saveJsonFile_visited
      split: prod.splits sum.splits option.splits if_splits)

lemma catch_item_visited:
  "catch_item ev i p e st w = (r, w1) \<Longrightarrow> visited (trace w1) = visited (trace w)"
  by (auto simp: catch_item_def Let_def sendWhatsAppMessage_visited
      dest!: saveJsonFile_visited generateReport_visited
      split: prod.splits option.splits if_splits)

lemma iteration_visited:
  "iteration ev ps i st w = (r, w1) \<Longrightarrow> visited (trace w1) = visited (trace w) @ [i]"
  by (auto simp: iteration_def pace_def visited_append
      dest!: try_item_visited catch_item_visited
      split: sum.splits prod.splits option.splits completion.splits if_splits)

lemma finalize_visited:
  "finalize ev st w = (r, w1) \<Longrightarrow> visited (trace w1) = visited (trace w)"
  by (auto simp: finalize_def Let_def sendWhatsAppMessage_visited
      dest!: saveJsonFile_visited generateReport_visited
      split: prod.splits option.splits if_splits)

lemma fatal_handler_visited:
  "fatal_handler ev e w = (c, w1) \<Longrightarrow> visited (trace w1) = visited (trace w)"
  by (auto simp: fatal_handler_def dest!: generateReport_visited
      split: sum.splits prod.splits option.splits)

lemma fetch_visited:
  assumes "fetchExistingTitles ev w = Some (r, w1)"
  shows "visited (trace w1) = visited (trace w)"
proof -
  have refresh: "visited (trace w1) = visited (trace w)" if r: "refresh_titles ev w = Some (r, w1)"
  proof -
    from r obtain ts w0 where lp: "list_pages ev [] w = Some (ts, w0)"
      by (auto simp: refresh_titles_def split: option.splits)
    from list_pages_frame[OF lp] obtain k where w0: "w0 = w\<lparr>n_list := k\<rparr>" by auto
    from r lp w0 show ?thesis
      by (auto simp: refresh_titles_def dest!: saveJsonFile_visited split: prod.splits option.splits)
  qed
  from assms show ?thesis
    by (auto simp: fetchExistingTitles_def refresh split: sum.splits if_splits)
qed

lemma iteration_exit_code: "iteration ev ps i st w = (Exit c, w1) \<Longrightarrow> c = 1"
  by (auto simp: iteration_def catch_item_def Let_def
      split: sum.splits prod.splits option.splits completion.splits if_splits)

lemma loop_visited:
  "loop ev ps i st w = (r, w1) \<Longrightarrow>
   (\<exists>k. k \<le> int (length ps) - 1 \<and> visited (trace w1) = visited (trace w) @ [i..k]) \<and>
   (\<forall>st1. r = Normal st1 \<longrightarrow> visited (trace w1) = visited (trace w) @ [i..int (length ps) - 1]) \<and>
   (\<forall>c. r = Exit c \<longrightarrow> c = 1)"
proof (induction ev ps i st w arbitrary: r w1 rule: loop.induct)
  case (1 ev ps i st w)
  show ?case
  proof (cases "i < int (length ps)")
    case False
    with "1.prems" have "r = Normal st" "w1 = w" by (simp_all add: loop_done)
    with False show ?thesis by (auto intro: exI[of _ "int (length ps) - 1"])
  next
    case True
    obtain r0 w0 where it: "iteration ev ps i st w = (r0, w0)" by (metis surj_pair)
    note v0 = iteration_visited[OF it]
    show ?thesis
    proof (cases r0)
      case (Normal st0)
      with "1.prems" it True have l: "loop ev ps (i + 1) st0 w0 = (r, w1)"
        by (simp add: loop_step)
      from "1.IH"[OF True it[symmetric] Normal l]
      have IH: "\<exists>k. k \<le> int (length ps) - 1 \<and> visited (trace w1) = visited (trace w0) @ [i + 1..k]"
        "\<forall>st1. r = Normal st1 \<longrightarrow> visited (trace w1) = visited (trace w0) @ [i + 1..int (length ps) - 1]"
        "\<forall>c. r = Exit c \<longrightarrow> c = 1"
        by blast+
      from IH(1) obtain k where k: "k \<le> int (length ps) - 1"
        "visited (trace w1) = visited (trace w0) @ [i + 1..k]" by blast
      have "\<exists>k. k \<le> int (length ps) - 1 \<and> visited (trace w1) = visited (trace w) @ [i..k]"
      proof (cases "i \<le> k")
        case True
        then have "[i..k] = i # [i + 1..k]" by (simp add: upto_rec1)
        with k v0 show ?thesis by auto
      next
        case False
        then have "[i + 1..k] = []" "[i..i] = [i]" by simp_all
        with k v0 True show ?thesis by (intro exI[of _ i]) auto
      qed
      moreover have "visited (trace w1) = visited (trace w) @ [i..int (length ps) - 1]"
        if "r = Normal st1" for st1
      proof -
        from True have "[i..int (length ps) - 1] = i # [i + 1..int (length ps) - 1]"
          by (simp add: upto_rec1)
        with IH(2) that v0 show ?thesis by simp
      qed
      ultimately show ?thesis using IH(3) by blast
    next
      case (Throw e)
      with "1.prems" it True have "r = Throw e" "w1 = w0" by (simp_all add: loop_step)
      with v0 True show ?thesis by (auto intro!: exI[of _ i])
    next
      case (Exit c)
      with "1.prems" it True have "r = Exit c" "w1 = w0" by (simp_all add: loop_step)
      with v0 True iteration_exit_code[of ev ps i st w c w0] it Exit show ?thesis
        by (auto intro!: exI[of _ i])
    qed
  qed
qed

lemma run_visited:
  assumes vars: "required_vars ev" and posts: "posts_json w = Content ps"
    and pr: "loadProgress w = Inr pr"
    and ids: "loadPostedIds w = Inr ids"
    and fetch: "fetchExistingTitles ev w = Some (Inr ts, w1)"
    and run: "main ev w = Some (c, w')"
  shows "\<exists>k. k \<le> int (length ps) - 1 \<and>
           visited (trace w') = visited (trace w) @ [lastProcessed pr + 1..k]"
    and "c = 0 \<Longrightarrow> visited (trace w') = visited (trace w) @ [lastProcessed pr + 1..int (length ps) - 1]"
proof -
  let ?st = "\<lparr>progress = pr, postedIds = ids, existingTitles = ts, postCountSinceLastSave = 0\<rparr>"
  let ?w2 = "sendWhatsAppMessage ev (Starting (length ps) (size_of ids)) w1"
  obtain r w3 where l: "loop ev ps (lastProcessed pr + 1) ?st ?w2 = (r, w3)" by (metis surj_pair)
  have v2: "visited (trace ?w2) = visited (trace w)"
    using fetch_visited[OF fetch] by (simp add: sendWhatsAppMessage_visited)
  note lv = loop_visited[OF l, unfolded v2]
  note start = postToBlogger_started[OF vars posts pr ids fetch, unfolded l]
  have v': "visited (trace w') = visited (trace w3)" and c0: "c = 0 \<longrightarrow> (\<exists>st1. r = Normal st1)"
  proof -
    show "visited (trace w') = visited (trace w3)"
    proof (cases r)
      case (Normal st1)
      obtain r4 w4 where f: "finalize ev st1 w3 = (r4, w4)" by (metis surj_pair)
      from run start Normal f finalize_visited[OF f] show ?thesis
        by (cases r4) (auto simp: main_def dest!: fatal_handler_visited[OF sym, rotated -1]
              simp: prod_eq_iff fatal_handler_visited[OF surjective_pairing])
    next
      case (Throw e)
      with run start show ?thesis
        by (auto simp: main_def fatal_handler_visited[OF surjective_pairing] prod_eq_iff)
    next
      case (Exit n)
      with run start show ?thesis by (auto simp: main_def)
    qed
    show "c = 0 \<longrightarrow> (\<exists>st1. r = Normal st1)"
    proof (cases r)
      case (Normal st1) then show ?thesis by simp
    next
      case (Throw e)
      with run start fatal_handler_code[of ev e w3] show ?thesis
        by (auto simp: main_def prod_eq_iff)
    next
      case (Exit n)
      with lv have "n = 1" by simp
      with Exit run start show ?thesis by (auto simp: main_def)
    qed
  qed
  from lv v' show "\<exists>k. k \<le> int (length ps) - 1 \<and>
           visited (trace w') = visited (trace w) @ [lastProcessed pr + 1..k]" by simp
  show "visited (trace w') = visited (trace w) @ [lastProcessed pr + 1..int (length ps) - 1]"
    if "c = 0"
    using that c0 lv v' by auto
qed


subsection \<open>The cursors a run writes\<close>

lemma saveJsonFile_cursors:
  "saveJsonFile ev fw w = (r, w1) \<Longrightarrow>
   persisted_cursors (trace w1) = persisted_cursors (trace w) @
     (case (r, fw) of (None, Progress pr) \<Rightarrow> [lastProcessed pr] | _ \<Rightarrow> [])"
  by (auto simp: saveJsonFile_def written_def persisted_cursors_append
      split: option.splits file_write.splits)

lemma sendWhatsAppMessage_cursors:
  "persisted_cursors (trace (sendWhatsAppMessage ev m w)) = persisted_cursors (trace w)"
  by (simp add: sendWhatsAppMessage_def persisted_cursors_append)

lemma generateReport_cursors:
  "generateReport ev sc fl reason w = (r, w1) \<Longrightarrow>
   persisted_cursors (trace w1) = persisted_cursors (trace w)"
  by (auto simp: generateReport_def sendWhatsAppMessage_cursors dest!: saveJsonFile_cursors
      split: sum.splits prod.splits option.splits)

lemma try_item_cursors:
  assumes "try_item ev n i p st w = (r, st1, w1)"
  shows "\<exists>cs. persisted_cursors (trace w1) = persisted_cursors (trace w) @ cs \<and>
           (case r of
              None \<Rightarrow> lastProcessed (progress st1) = i \<and> (cs = [] \<or> cs = [i])
            | Some e \<Rightarrow> cs = [] \<and> (lastProcessed (progress st1) = lastProcessed (progress st) \<or>
                                     lastProcessed (progress st1) = i))"
proof -
  obtain r0 ids ts w0 where a: "postToBloggerWithRetry ev p (postedIds st) (existingTitles st) 1 w
      = (r0, ids, ts, w0)" by (metis prod_cases4)
  note c0 = retry_silent(3)[OF a]
  show ?thesis
    using assms a c0
    by (auto simp: try_item_def Let_def advance_def dest!: saveJsonFile_cursors
        split: sum.splits prod.splits option.splits if_splits)
qed

lemma catch_item_cursors:
  assumes "catch_item ev i p e st w = (r, w1)"
  shows "\<exists>cs. persisted_cursors (trace w1) = persisted_cursors (trace w) @ cs \<and>
           (cs = [] \<or> cs = [lastProcessed (progress st)]) \<and>
           (\<forall>st1. r = Normal st1 \<longrightarrow> lastProcessed (progress st1) = lastProcessed (progress st))"
  using assms
  by (auto simp: catch_item_def Let_def push_failed_def sendWhatsAppMessage_cursors
      dest!: saveJsonFile_cursors generateReport_cursors
      split: prod.splits option.splits if_splits)

lemma iteration_cursors:
  assumes it: "iteration ev ps i st w = (r, w1)"
  shows "\<exists>cs. persisted_cursors (trace w1) = persisted_cursors (trace w) @ cs \<and>
           (cs = [] \<or> cs = [lastProcessed (progress st)] \<or> cs = [i]) \<and>
           (\<forall>st1. r = Normal st1 \<longrightarrow>
              (lastProcessed (progress st1) = lastProcessed (progress st) \<or>
               lastProcessed (progress st1) = i) \<and>
              (cs = [] \<or> cs = [lastProcessed (progress st1)]))"
proof (cases "entry_at ps i")
  case (Inl e)
  with it show ?thesis by (auto simp: iteration_def persisted_cursors_append)
next
  case (Inr p)
  let ?w = "w\<lparr>trace := trace w @ [Visit i]\<rparr>"
  obtain r0 st0 w0 where t: "try_item ev (length ps) i p st ?w = (r0, st0, w0)"
    by (metis prod_cases3)
  from try_item_cursors[OF t] obtain cs0 where
    c0: "persisted_cursors (trace w0) = persisted_cursors (trace w) @ cs0"
    and k0: "case r0 of
              None \<Rightarrow> lastProcessed (progress st0) = i \<and> (cs0 = [] \<or> cs0 = [i])
            | Some e \<Rightarrow> cs0 = [] \<and> (lastProcessed (progress st0) = lastProcessed (progress st) \<or>
                                     lastProcessed (progress st0) = i)"
    by (auto simp: persisted_cursors_append)
  show ?thesis
  proof (cases r0)
    case None
    with it Inr t have "r = Normal st0" "w1 = pace (length ps) i st0 w0"
      by (auto simp: iteration_def)
    with c0 k0 None show ?thesis by (auto simp: pace_def persisted_cursors_append)
  next
    case (Some e)
    obtain r2 w2 where c: "catch_item ev i p e st0 w0 = (r2, w2)" by (metis surj_pair)
    from catch_item_cursors[OF c] obtain cs2 where
      c2: "persisted_cursors (trace w2) = persisted_cursors (trace w0) @ cs2"
      "cs2 = [] \<or> cs2 = [lastProcessed (progress st0)]"
      "\<forall>st1. r2 = Normal st1 \<longrightarrow> lastProcessed (progress st1) = lastProcessed (progress st0)"
      by blast
    from k0 Some have k: "cs0 = []" "lastProcessed (progress st0) = lastProcessed (progress st) \<or>
                                     lastProcessed (progress st0) = i" by simp_all
    show ?thesis
    proof (cases r2)
      case (Normal st2)
      with it Inr t Some c have "r = Normal st2" "w1 = pace (length ps) i st2 w2"
        by (auto simp: iteration_def)
      with c0 c2 k Normal show ?thesis by (auto simp: pace_def persisted_cursors_append)
    next
      case (Throw e2)
      with it Inr t Some c have "r = Throw e2" "w1 = w2" by (auto simp: iteration_def)
      with c0 c2 k show ?thesis by auto
    next
      case (Exit n)
      with it Inr t Some c have "r = Exit n" "w1 = w2" by (auto simp: iteration_def)
      with c0 c2 k show ?thesis by auto
    qed
  qed
qed

lemma loop_cursors:
  "loop ev ps i st w = (r, w1) \<Longrightarrow> lastProcessed (progress st) \<le> i \<Longrightarrow>
   (\<exists>cs. persisted_cursors (trace w1) = persisted_cursors (trace w) @ cs \<and>
         sorted (lastProcessed (progress st) # cs)) \<and>
   (\<forall>st1. r = Normal st1 \<longrightarrow> lastProcessed (progress st) \<le> lastProcessed (progress st1))"
proof (induction ev ps i st w arbitrary: r w1 rule: loop.induct)
  case (1 ev ps i st w)
  show ?case
  proof (cases "i < int (length ps)")
    case False
    with "1.prems" have "r = Normal st" "w1 = w" by (simp_all add: loop_done)
    then show ?thesis by simp
  next
    case True
    obtain r0 w0 where it: "iteration ev ps i st w = (r0, w0)" by (metis surj_pair)
    from iteration_cursors[OF it] obtain cs0 where
      c0: "persisted_cursors (trace w0) = persisted_cursors (trace w) @ cs0"
      "cs0 = [] \<or> cs0 = [lastProcessed (progress st)] \<or> cs0 = [i]"
      "\<forall>st1. r0 = Normal st1 \<longrightarrow>
              (lastProcessed (progress st1) = lastProcessed (progress st) \<or>
               lastProcessed (progress st1) = i) \<and>
              (cs0 = [] \<or> cs0 = [lastProcessed (progress st1)])"
      by blast
    have s0: "sorted (lastProcessed (progress st) # cs0)"
      using c0(2) "1.prems"(2) by auto
    show ?thesis
    proof (cases r0)
      case (Normal st0)
      with "1.prems" it True have l: "loop ev ps (i + 1) st0 w0 = (r, w1)"
        by (simp add: loop_step)
      from c0(3) Normal have m: "lastProcessed (progress st0) = lastProcessed (progress st) \<or>
               lastProcessed (progress st0) = i" "cs0 = [] \<or> cs0 = [lastProcessed (progress st0)]"
        by simp_all
      with "1.prems"(2) have le: "lastProcessed (progress st0) \<le> i + 1"
        "lastProcessed (progress st) \<le> lastProcessed (progress st0)" by auto
      from "1.IH"[OF True it[symmetric] Normal l le(1)] obtain cs1 where
        c1: "persisted_cursors (trace w1) = persisted_cursors (trace w0) @ cs1"
        "sorted (lastProcessed (progress st0) # cs1)"
        "\<forall>st1. r = Normal st1 \<longrightarrow> lastProcessed (progress st0) \<le> lastProcessed (progress st1)"
        by blast
      have "sorted (lastProcessed (progress st) # cs0 @ cs1)"
        using m(2) le(2) c1(2) by (auto simp: sorted_append)
      with c0(1) c1 le(2) show ?thesis by (auto intro!: exI[of _ "cs0 @ cs1"])
    next
      case (Throw e)
      with "1.prems" it True have "r = Throw e" "w1 = w0" by (simp_all add: loop_step)
      with c0(1) s0 show ?thesis by auto
    next
      case (Exit c)
      with "1.prems" it True have "r = Exit c" "w1 = w0" by (simp_all add: loop_step)
      with c0(1) s0 show ?thesis by auto
    qed
  qed
qed



lemma resumed_run: "\<exists>w'. main accepting resumed = Some (0, w')"
  by (simp add: main_def postToBlogger_def resumed_def fresh_def five_posts_def accepting_def
      remote_def loadJsonFile_def loadProgress_def
        repair_def default_progress_def stringify_def loadPostedIds_def new_Set_def add_def fetchExistingTitles_def
      loop_step loop_done iteration_def entry_at_def try_item_def postToBloggerWithRetry.simps
      publish_once_def has_def titled_def request_of_def savePostedIds_def saveJsonFile_def
      written_def store_def advance_def pace_def pacing_delay_def size_of_def BASE_DELAY_def
      finalize_def successCount_of_def generateReport_def build_report_def
      sendWhatsAppMessage_def Let_def)

subsection \<open>A post that fails\<close>

lemma try_item_rejected:
  assumes new: "\<not> has (postedIds st) (title p)" "\<not> has (existingTitles st) (title p)"
    and rej: "insert_reply ev (n_insert w) = Rejected e" and fatal: "\<not> isRateLimitError e"
  shows "try_item ev n i p st w =
    (Some e, st, w\<lparr>n_insert := n_insert w + 1, trace := trace w @ [Insert (request_of p)]\<rparr>)"
  by (simp add: try_item_def retry_fatal[OF publish_once_rejected[OF new rej] fatal])

lemma catch_item_local:
  assumes "save_error ev (n_save w) = None"
    and "\<not> str_includes (message e) ''Rate limit exceeded''"
  shows "catch_item ev i p e st w =
    (Normal (push_failed i p e st),
     sendWhatsAppMessage ev (ErrorPosting i (title p) (message e))
       (written (Progress (progress (push_failed i p e st))) w))"
  using assms by (simp add: catch_item_def saveJsonFile_def Let_def)

lemma iteration_item_local:
  assumes "entry_at ps i = Inr p"
    and "try_item ev (length ps) i p st (w\<lparr>trace := trace w @ [Visit i]\<rparr>) = (Some e, st1, w1)"
    and "save_error ev (n_save w1) = None"
    and "\<not> str_includes (message e) ''Rate limit exceeded''"
  shows "iteration ev ps i st w =
    (Normal (push_failed i p e st1),
     pace (length ps) i (push_failed i p e st1)
       (sendWhatsAppMessage ev (ErrorPosting i (title p) (message e))
          (written (Progress (progress (push_failed i p e st1))) w1)))"
  using assms(1,2) by (simp add: iteration_def catch_item_local[OF assms(3,4)])

lemma finalize_ok:
  assumes saves: "\<forall>k. save_error ev k = None" and ids: "loadPostedIds w = Inr ids"
    and xs: "existing_titles_json w = Content xs"
  shows "\<exists>w'. finalize ev st w = (Exit 0, w') \<and>
           (failed (progress st) \<noteq> [] \<longrightarrow> failed_posts_json w' = Content (failed (progress st))) \<and>
           (failed (progress st) = [] \<longrightarrow> failed_posts_json w' = failed_posts_json w) \<and>
           progress_json w' = progress_json w \<and> posted_ids_json w' = posted_ids_json w \<and>
           n_insert w' = n_insert w"
proof -
  let ?wz = "if length (failed (progress st)) > 0
             then written (FailedPosts (failed (progress st))) w else w"
  have 1: "loadPostedIds ?wz = Inr ids"
    using ids by (simp add: loadPostedIds_def written_def store_def)
  have 2: "existing_titles_json ?wz = Content xs"
    using xs by (simp add: written_def store_def)
  have s: "(if length (failed (progress st)) > 0
            then saveJsonFile ev (FailedPosts (failed (progress st))) w else (None, w))
           = (None, ?wz)"
    by (simp add: saveJsonFile_ok[OF saves])
  show ?thesis
    unfolding finalize_def Let_def s prod.case option.case generateReport_ok[OF saves 1 2]
    by (simp add: sendWhatsAppMessage_def written_def store_def)
qed

lemma main_completed:
  assumes "postToBlogger ev w = Some (Exit c, w')"
  shows "main ev w = Some (c, w')"
  using assms by (simp add: main_def)



lemma sendWhatsAppMessage_fields:
  "n_insert (sendWhatsAppMessage ev m w) = n_insert w"
  "n_save (sendWhatsAppMessage ev m w) = n_save w"
  "n_list (sendWhatsAppMessage ev m w) = n_list w"
  "posts_json (sendWhatsAppMessage ev m w) = posts_json w"
  "posted_ids_json (sendWhatsAppMessage ev m w) = posted_ids_json w"
  "existing_titles_json (sendWhatsAppMessage ev m w) = existing_titles_json w"
  "progress_json (sendWhatsAppMessage ev m w) = progress_json w"
  "failed_posts_json (sendWhatsAppMessage ev m w) = failed_posts_json w"
  "reports (sendWhatsAppMessage ev m w) = reports w"
  by (simp_all add: sendWhatsAppMessage_def)


subsection \<open>The cursor on the failure path\<close>

lemma catch_item_keeps_cursor:
  assumes "catch_item ev i p e st w = (Normal st2, w2)"
  shows "lastProcessed (progress st2) = lastProcessed (progress st) \<and>
         failed (progress st2) = failed (progress st) @ [Failed i (title p) (message e)] \<and>
         progress_json w2 = Content (stringify (progress st2))"
  using assms
  by (auto simp: catch_item_def Let_def push_failed_def saveJsonFile_def written_def store_def
        sendWhatsAppMessage_fields
      split: prod.splits option.splits if_splits)

lemma pace_fields: "progress_json (pace n i st w) = progress_json w"
  by (simp add: pace_def)

lemma iteration_failed_frame:
  assumes en: "entry_at ps i = Inr p"
    and att: "postToBloggerWithRetry ev p (postedIds st) (existingTitles st) 1
                (w\<lparr>trace := trace w @ [Visit i]\<rparr>) = (Inl e, ids1, ts1, w1)"
    and it: "iteration ev ps i st w = (Normal st2, w2)"
  shows "lastProcessed (progress st2) = lastProcessed (progress st) \<and>
         failed (progress st2) = failed (progress st) @ [Failed i (title p) (message e)] \<and>
         progress_json w2 = Content (stringify (progress st2))"
proof -
  let ?st1 = "st\<lparr>postedIds := ids1, existingTitles := ts1\<rparr>"
  have t: "try_item ev (length ps) i p st (w\<lparr>trace := trace w @ [Visit i]\<rparr>) = (Some e, ?st1, w1)"
    using att by (simp add: try_item_def)
  obtain r c where c: "catch_item ev i p e ?st1 w1 = (r, c)" by (metis surj_pair)
  from it en t c have r: "r = Normal st2" "w2 = pace (length ps) i st2 c"
    by (auto simp: iteration_def split: completion.splits)
  from catch_item_keeps_cursor[OF c[unfolded r(1)]] r(2) show ?thesis
    by (simp add: pace_fields)
qed

lemma loop_trailing_failures:
  assumes saves: "\<forall>k. save_error ev k = None"
    and fatal: "\<not> isRateLimitError e" "\<not> str_includes (message e) ''Rate limit exceeded''"
  shows "k = nat (int (length ps) - 1 - i) \<Longrightarrow> 0 \<le> i \<Longrightarrow> i < int (length ps) \<Longrightarrow>
    \<forall>m\<ge>n_insert w. insert_reply ev m = Rejected e \<Longrightarrow>
    \<forall>j. i \<le> j \<and> j < int (length ps) \<longrightarrow>
        (\<exists>p. ps ! nat j = Post p \<and> \<not> has (postedIds st) (title p) \<and>
             \<not> has (existingTitles st) (title p)) \<Longrightarrow>
    \<exists>st' w'. loop ev ps i st w = (Normal st', w') \<and>
       lastProcessed (progress st') = lastProcessed (progress st) \<and>
       progress_json w' = Content (stringify (progress st')) \<and>
       map index (failed (progress st')) = map index (failed (progress st)) @ [i..int (length ps) - 1]"
proof (induction k arbitrary: i st w)
  case 0
  then have last: "i = int (length ps) - 1" by simp
  from "0.prems"(5)[rule_format, of i] "0.prems"(2,3) obtain p where
    p: "ps ! nat i = Post p" "\<not> has (postedIds st) (title p)" "\<not> has (existingTitles st) (title p)"
    by auto
  have en: "entry_at ps i = Inr p" using p(1) "0.prems"(2,3) by (simp add: entry_at_def)
  let ?w1 = "w\<lparr>trace := trace w @ [Visit i]\<rparr>"
  have rj: "insert_reply ev (n_insert ?w1) = Rejected e" using "0.prems"(4) by simp
  note t = try_item_rejected[OF p(2,3) rj fatal(1), of "length ps" i]
  note it = iteration_item_local[OF en t saves[rule_format] fatal(2)]
  have fin: "\<not> i + 1 < int (length ps)" using last by simp
  have lp: "loop ev ps i st w =
      (Normal (push_failed i p e st),
       pace (length ps) i (push_failed i p e st)
         (sendWhatsAppMessage ev (ErrorPosting i (title p) (message e))
            (written (Progress (progress (push_failed i p e st)))
               (?w1\<lparr>n_insert := n_insert ?w1 + 1,
                    trace := trace ?w1 @ [Insert (request_of p)]\<rparr>))))"
    using "0.prems"(3) by (simp add: loop_step it loop_done[OF fin])
  have u: "[i..int (length ps) - 1] = [i]" using last by simp
  show ?case
    unfolding lp u
    by (simp add: push_failed_def pace_def sendWhatsAppMessage_fields written_def store_def)
next
  case (Suc k)
  then have nxt: "k = nat (int (length ps) - 1 - (i + 1))" "0 \<le> i + 1" "i + 1 < int (length ps)"
    by simp_all
  from Suc.prems(5)[rule_format, of i] Suc.prems(2,3) obtain p where
    p: "ps ! nat i = Post p" "\<not> has (postedIds st) (title p)" "\<not> has (existingTitles st) (title p)"
    by auto
  have en: "entry_at ps i = Inr p" using p(1) Suc.prems(2,3) by (simp add: entry_at_def)
  let ?w1 = "w\<lparr>trace := trace w @ [Visit i]\<rparr>"
  have rj: "insert_reply ev (n_insert ?w1) = Rejected e" using Suc.prems(4) by simp
  note t = try_item_rejected[OF p(2,3) rj fatal(1), of "length ps" i]
  note it = iteration_item_local[OF en t saves[rule_format] fatal(2)]
  let ?st1 = "push_failed i p e st"
  let ?w2 = "pace (length ps) i ?st1
       (sendWhatsAppMessage ev (ErrorPosting i (title p) (message e))
          (written (Progress (progress ?st1))
             (?w1\<lparr>n_insert := n_insert ?w1 + 1, trace := trace ?w1 @ [Insert (request_of p)]\<rparr>)))"
  have n2: "n_insert ?w2 = n_insert w + 1"
    by (simp add: pace_def sendWhatsAppMessage_fields written_def store_def)
  have r2: "\<forall>m\<ge>n_insert ?w2. insert_reply ev m = Rejected e"
    using Suc.prems(4) n2 by simp
  have s2: "\<forall>j. i + 1 \<le> j \<and> j < int (length ps) \<longrightarrow>
        (\<exists>p. ps ! nat j = Post p \<and> \<not> has (postedIds ?st1) (title p) \<and>
             \<not> has (existingTitles ?st1) (title p))"
    using Suc.prems(5) by (simp add: push_failed_def)
  from Suc.IH[OF nxt r2 s2] obtain st' w' where
    l: "loop ev ps (i + 1) ?st1 ?w2 = (Normal st', w')"
       "lastProcessed (progress st') = lastProcessed (progress ?st1)"
       "progress_json w' = Content (stringify (progress st'))"
       "map index (failed (progress st')) =
          map index (failed (progress ?st1)) @ [i + 1..int (length ps) - 1]"
    by blast
  have u: "[i..int (length ps) - 1] = i # [i + 1..int (length ps) - 1]"
    using Suc.prems(3) by (simp add: upto_rec1)
  show ?case
    using Suc.prems(3) l u
    by (simp add: loop_step it push_failed_def)
qed


lemma resumed_indices:
  assumes "required_vars ev" "posts_json w = Content ps"
    "loadProgress w = Inr pr"
    "loadPostedIds w = Inr ids" "fetchExistingTitles ev w = Some (Inr ts, w1)"
    "main ev w = Some (0, w')" "lastProcessed pr < j" "j < int (length ps)"
  shows "j \<in> set (visited (trace w'))"
  using run_visited(2)[OF assms(1-6) refl] assms(7,8) by simp

lemma retried_run: "\<exists>w'. main accepting after_failures = Some (0, w')"
  by (simp add: main_def postToBlogger_def after_failures_def fresh_def two_posts_def
      accepting_def remote_def loadJsonFile_def loadProgress_def
        repair_def default_progress_def stringify_def loadPostedIds_def new_Set_def add_def
      enoent_def fetchExistingTitles_def refresh_titles_def list_pages.simps
      loop_step loop_done iteration_def entry_at_def try_item_def postToBloggerWithRetry.simps
      publish_once_def has_def titled_def request_of_def savePostedIds_def saveJsonFile_def
      written_def store_def advance_def pace_def pacing_delay_def size_of_def BASE_DELAY_def
      finalize_def successCount_of_def generateReport_def build_report_def
      sendWhatsAppMessage_def Let_def)

subsection \<open>A batch that the blog accepts\<close>

lemma foldl_add_distinct: "distinct (acc @ xs) \<Longrightarrow> foldl add acc xs = acc @ xs"
  by (induction xs arbitrary: acc) (auto simp: add_def)

lemma new_Set_distinct: "distinct xs \<Longrightarrow> new_Set xs = xs"
  by (simp add: new_Set_def foldl_add_distinct)

lemma finalize_paces: "finalize ev st w = (r, w1) \<Longrightarrow> paces (trace w1) = paces (trace w)"
  by (auto simp: finalize_def Let_def sendWhatsAppMessage_paces
      dest!: saveJsonFile_paces generateReport_paces
      split: prod.splits option.splits if_splits)

lemma try_item_accepted:
  assumes saves: "\<forall>k. save_error ev k = None"
    and new: "title p \<notin> set (postedIds st)" "title p \<notin> set (existingTitles st)"
    and ok: "insert_reply ev (n_insert w) = Resolved url"
  shows "\<exists>st1 w1. try_item ev n i p st w = (None, st1, w1) \<and>
           postedIds st1 = postedIds st @ [title p] \<and>
           existingTitles st1 = existingTitles st @ [title p] \<and>
           posted_ids_json w1 = Content (postedIds st1) \<and>
           existing_titles_json w1 = Content (existingTitles st1)"
  using new
  by (simp add: try_item_success[OF saves _ _ ok] has_def add_def Let_def advance_def
      written_def store_def)

lemma loop_accepted:
  assumes saves: "\<forall>k. save_error ev k = None"
    and acc: "\<forall>k. \<exists>u. insert_reply ev k = Resolved u"
  shows "0 \<le> i \<Longrightarrow> nat i \<le> length qs \<Longrightarrow>
     distinct (map title (drop (nat i) qs)) \<Longrightarrow>
     set (map title (drop (nat i) qs)) \<inter> (set (postedIds st) \<union> set (existingTitles st)) = {} \<Longrightarrow>
     \<exists>x. loadPostedIds w = Inr x \<Longrightarrow> \<exists>ys. existing_titles_json w = Content ys \<Longrightarrow>
     \<exists>st' w'. loop ev (map Post qs) i st w = (Normal st', w') \<and>
        postedIds st' = postedIds st @ map title (drop (nat i) qs) \<and>
        paces (trace w') = paces (trace w) @
          map (\<lambda>j. pacing_delay (length (postedIds st) + j + 1)) [0..<length qs - 1 - nat i] \<and>
        (\<exists>x. loadPostedIds w' = Inr x) \<and> (\<exists>ys. existing_titles_json w' = Content ys)"
proof (induction "length qs - nat i" arbitrary: i st w)
  case 0
  then have "\<not> i < int (length (map Post qs))" by simp
  then have "loop ev (map Post qs) i st w = (Normal st, w)" by (rule loop_done)
  moreover have "drop (nat i) qs = []" using 0 by simp
  moreover have "length qs - 1 - nat i = 0" using 0 by simp
  ultimately show ?case using 0(6,7) by simp
next
  case (Suc k)
  let ?ps = "map Post qs"
  let ?p = "qs ! nat i"
  let ?L = "length (postedIds st)"
  have lt: "nat i < length qs" "i < int (length ?ps)" using Suc(2,3) by simp_all
  have dr: "drop (nat i) qs = ?p # drop (Suc (nat i)) qs"
    using lt(1) by (simp add: Cons_nth_drop_Suc)
  have e: "entry_at ?ps i = Inr ?p"
    using lt Suc(3) by (simp add: entry_at_def)
  have new: "title ?p \<notin> set (postedIds st)" "title ?p \<notin> set (existingTitles st)"
    using Suc(6) dr by auto
  let ?w0 = "w\<lparr>trace := trace w @ [Visit i]\<rparr>"
  from acc obtain u where u: "insert_reply ev (n_insert ?w0) = Resolved u" by blast
  from try_item_accepted[OF saves new u, of "length ?ps" i] obtain st1 w1 where
    t: "try_item ev (length ?ps) i ?p st ?w0 = (None, st1, w1)"
    and st1: "postedIds st1 = postedIds st @ [title ?p]"
             "existingTitles st1 = existingTitles st @ [title ?p]"
    and w1: "posted_ids_json w1 = Content (postedIds st1)"
            "existing_titles_json w1 = Content (existingTitles st1)"
    by blast
  let ?w2 = "pace (length ?ps) i st1 w1"
  have it: "iteration ev ?ps i st w = (Normal st1, ?w2)"
    using e t by (rule iteration_after_try)
  have p1: "paces (trace w1) = paces (trace w)"
    using try_item_paces[OF t] by (simp add: paces_append)
  have p2: "paces (trace ?w2) = paces (trace w) @
      (if i < int (length qs) - 1 then [pacing_delay (?L + 1)] else [])"
    using p1 st1 by (simp add: pace_def paces_append size_of_def)
  have f2: "\<exists>x. loadPostedIds ?w2 = Inr x" "\<exists>ys. existing_titles_json ?w2 = Content ys"
    using w1 by (simp_all add: pace_def loadPostedIds_def loadJsonFile_def)
  have i1: "0 \<le> i + 1" "nat (i + 1) \<le> length qs" "k = length qs - nat (i + 1)"
    "nat (i + 1) = Suc (nat i)"
    using Suc(2,3) lt by simp_all
  have d1: "distinct (map title (drop (nat (i + 1)) qs))"
    using Suc(5) dr i1(4) by simp
  have n1: "set (map title (drop (nat (i + 1)) qs)) \<inter>
      (set (postedIds st1) \<union> set (existingTitles st1)) = {}"
    using Suc(5,6) dr i1(4) st1 by auto
  from Suc(1)[OF i1(3) i1(1) i1(2) d1 n1 f2] obtain st' w' where
    l: "loop ev ?ps (i + 1) st1 ?w2 = (Normal st', w')"
    and ids: "postedIds st' = postedIds st1 @ map title (drop (nat (i + 1)) qs)"
    and pc: "paces (trace w') = paces (trace ?w2) @
          map (\<lambda>j. pacing_delay (length (postedIds st1) + j + 1))
            [0..<length qs - 1 - nat (i + 1)]"
    and fl: "\<exists>x. loadPostedIds w' = Inr x" "\<exists>ys. existing_titles_json w' = Content ys"
    by blast
  have lp: "loop ev ?ps i st w = (Normal st', w')"
    using lt(2) it l by (simp add: loop_step)
  have ids': "postedIds st' = postedIds st @ map title (drop (nat i) qs)"
    using ids st1 dr i1(4) by simp
  have pc': "paces (trace w') = paces (trace w) @
          map (\<lambda>j. pacing_delay (?L + j + 1)) [0..<length qs - 1 - nat i]"
  proof (cases "i < int (length qs) - 1")
    case True
    then have "length qs - 1 - nat i = Suc (length qs - 1 - nat (i + 1))"
      using i1 Suc(3) by linarith
    then have "[0..<length qs - 1 - nat i] = 0 # map Suc [0..<length qs - 1 - nat (i + 1)]"
      by (simp add: upt_conv_Cons map_Suc_upt del: upt_Suc)
    then show ?thesis using pc p2 True st1 by (simp add: comp_def)
  next
    case False
    then have "length qs - 1 - nat i = 0" "length qs - 1 - nat (i + 1) = 0"
      using i1 by linarith+
    then show ?thesis using pc p2 False by simp
  qed
  show ?case using lp ids' pc' fl by blast
qed

lemma run_accepted:
  assumes vars: "required_vars ev"
    and saves: "\<forall>k. save_error ev k = None"
    and acc: "\<forall>k. \<exists>u. insert_reply ev k = Resolved u"
    and posts: "posts_json w = Content (map Post qs)"
    and pr: "loadProgress w = Inr pr" "lastProcessed pr = - 1"
    and ids: "loadPostedIds w = Inr ids"
    and fetch: "fetchExistingTitles ev w = Some (Inr ts, w1)"
    and titles: "distinct (map title qs)" "set (map title qs) \<inter> (set ids \<union> set ts) = {}"
  shows "\<exists>w'. main ev w = Some (0, w') \<and>
           paces (trace w') = paces (trace w) @
             map (\<lambda>j. pacing_delay (length ids + j + 1)) [0..<length qs - 1]"
proof -
  from fetch have "fetchExistingTitles ev w \<noteq> None" by simp
  from fetch_frame[OF saves this] fetch obtain xs tr where
    w1: "existing_titles_json w1 = Content xs" "posted_ids_json w1 = posted_ids_json w"
       "trace w1 = trace w @ tr" "set tr \<subseteq> range (\<lambda>xs. Saved (ExistingTitles xs))"
    by auto
  have ptr: "paces tr = []"
    using w1(4) by (induction tr) auto
  let ?st = "\<lparr>progress = pr, postedIds = ids, existingTitles = ts, postCountSinceLastSave = 0\<rparr>"
  let ?w2 = "sendWhatsAppMessage ev (Starting (length (map Post qs)) (size_of ids)) w1"
  have f2: "\<exists>x. loadPostedIds ?w2 = Inr x" "\<exists>ys. existing_titles_json ?w2 = Content ys"
    using ids w1(1,2) by (simp_all add: loadPostedIds_def sendWhatsAppMessage_def)
  have p2: "paces (trace ?w2) = paces (trace w)"
    using w1(3) ptr by (simp add: sendWhatsAppMessage_paces paces_append)
  from loop_accepted[OF saves acc, of 0 qs ?st ?w2] titles f2 obtain st' w3 where
    l: "loop ev (map Post qs) 0 ?st ?w2 = (Normal st', w3)"
    and pc: "paces (trace w3) = paces (trace ?w2) @
          map (\<lambda>j. pacing_delay (length ids + j + 1)) [0..<length qs - 1]"
    and f3: "\<exists>x. loadPostedIds w3 = Inr x" "\<exists>ys. existing_titles_json w3 = Content ys"
    by auto
  from f3 obtain x ys where x: "loadPostedIds w3 = Inr x" "existing_titles_json w3 = Content ys"
    by blast
  from finalize_ok[OF saves x, of st'] obtain w' where
    f: "finalize ev st' w3 = (Exit 0, w')" by blast
  have "postToBlogger ev w = Some (Exit 0, w')"
    using postToBlogger_started[OF vars posts pr(1) ids fetch] pr(2) l f by simp
  then have "main ev w = Some (0, w')" by (rule main_completed)
  moreover have "paces (trace w') = paces (trace w3)"
    using f by (rule finalize_paces)
  ultimately show ?thesis using pc p2 by simp
qed


lemma distinct_earlier_titles: "distinct earlier_titles"
  unfolding earlier_titles_def
  by (rule iffD2[OF distinct_map]) (auto simp: inj_on_def dest: arg_cong[where f = length])

subsection \<open>A failure that ends the job\<close>









section \<open>The claims\<close>

text \<open>
  C1. A post whose title is in the set of posted identifiers or in the set of existing
  titles is skipped at once by \<^verbatim>\<open>postToBloggerWithRetry\<close>, at any attempt number: the
  result is \<open>Skipped\<close>, and the two sets and the whole world (insert calls, files, trace)
  are as before. And a run over the single post \<open>p\<close>, whose title is already in
  \<^verbatim>\<open>posted_ids.json\<close>, ends with exit code 0 without any insert call: when the required
  variables are set, every write succeeds, the cursor file is absent or holds a cursor
  of at least -1, and the listing of the remote titles ends.
\<close>

theorem skipped_without_effect:
  "(has ids (title p) \<or> has ts (title p) \<longrightarrow>
      postToBloggerWithRetry ev p ids ts attempt w = (Inr Skipped, ids, ts, w)) \<and>
   (required_vars ev \<and> (\<forall>k. save_error ev k = None) \<and>
    posts_json w0 = Content [Post p] \<and> posted_ids_json w0 = Content ids0 \<and>
    title p \<in> set ids0 \<and>
    loadProgress w0 = Inr pr \<and>
    - 1 \<le> lastProcessed pr \<and> fetchExistingTitles ev w0 \<noteq> None \<longrightarrow>
      (\<exists>w'. main ev w0 = Some (0, w') \<and> n_insert w' = n_insert w0))"
  using skip_known[of ids p ts ev attempt w] run_of_known_title[of ev w0 p ids0 pr]
  by blast

theorem skipped_without_effect_witness:
  "has [''X''] (title (titled ''X'')) \<and>
   postToBloggerWithRetry accepting (titled ''X'') [''X''] [] 1
      ((fresh [Post (titled ''X'')])\<lparr>posted_ids_json := Content [''X'']\<rparr>)
     = (Inr Skipped, [''X''], [], (fresh [Post (titled ''X'')])\<lparr>posted_ids_json := Content [''X'']\<rparr>) \<and>
   (\<exists>w'. main accepting
             ((fresh [Post (titled ''X'')])\<lparr>posted_ids_json := Content [''X'']\<rparr>) = Some (0, w') \<and>
         n_insert w' = 0)"
proof -
  let ?ev = accepting
  let ?w = "(fresh [Post (titled ''X'')])\<lparr>posted_ids_json := Content [''X'']\<rparr>"
  have h1: "has [''X''] (title (titled ''X''))"
    by (simp add: has_def titled_def)
  have h2: "required_vars ?ev \<and> (\<forall>k. save_error ?ev k = None) \<and>
    posts_json ?w = Content [Post (titled ''X'')] \<and> posted_ids_json ?w = Content [''X''] \<and>
    title (titled ''X'') \<in> set [''X''] \<and>
    loadProgress ?w
      = Inr \<lparr>lastProcessed = - 1, failed = []\<rparr> \<and>
    - 1 \<le> lastProcessed \<lparr>lastProcessed = - 1, failed = []\<rparr> \<and>
    fetchExistingTitles ?ev ?w \<noteq> None"
    by (simp add: accepting_def remote_def fresh_def titled_def loadJsonFile_def loadProgress_def
        repair_def default_progress_def stringify_def enoent_def
        fetchExistingTitles_def refresh_titles_def list_pages.simps saveJsonFile_def
        written_def)
  have n: "n_insert ?w = 0" by (simp add: fresh_def)
  from skipped_without_effect[of "[''X'']" "titled ''X''" "[]" ?ev 1 ?w ?w "[''X'']"
      "\<lparr>lastProcessed = - 1, failed = []\<rparr>"] h1 h2 n
  show ?thesis by simp
qed

text \<open>
  C3. Whatever the remote answers, one call of \<^verbatim>\<open>postToBloggerWithRetry\<close> (which starts
  at attempt 1) issues at most \<open>MAX_RETRIES = 5\<close> insert calls, and a call entered at
  attempt \<open>a\<close> at most \<open>MAX_RETRIES - a + 1\<close>. The function is total: the recursion ends.
\<close>

theorem retry_bound:
  "MAX_RETRIES = 5 \<and>
   n_insert (snd (snd (snd (postToBloggerWithRetry ev p ids ts 1 w)))) \<le> n_insert w + MAX_RETRIES \<and>
   n_insert (snd (snd (snd (postToBloggerWithRetry ev p ids ts a w))))
     \<le> n_insert w + (MAX_RETRIES - a) + 1"
  using retry_n_insert[of ev p ids ts 1 w] retry_n_insert[of ev p ids ts a w]
  by (simp add: MAX_RETRIES_def)

text \<open>
  C2. When an attempt fails with an error that \<open>isRateLimitError\<close> accepts and the attempt
  number is no longer below \<open>MAX_RETRIES\<close>, \<^verbatim>\<open>postToBloggerWithRetry\<close> throws the error of
  line 244, whose message contains "Rate limit exceeded". And the driver ends the whole
  job on it: when every insert call is rejected with such an error, a run whose first
  item to process is a post with an unknown title makes five insert calls, writes one
  report whose \<open>terminationReason\<close> contains "rate limit", exits with code 1, and has
  entered the loop body for that one index only. The run is one with the required
  variables set, every write succeeding, and the files and the listing readable.
\<close>

theorem rate_limit_exhaustion_ends_job:
  "(publish_once ev p ids ts w = (Inl e, ids1, ts1, w1) \<and> isRateLimitError e \<and>
    \<not> a < MAX_RETRIES \<longrightarrow>
      postToBloggerWithRetry ev p ids ts a w = (Inl (rate_limit_exceeded a e), ids1, ts1, w1) \<and>
      str_includes (message (rate_limit_exceeded a e)) ''Rate limit exceeded'') \<and>
   (required_vars ev \<and> (\<forall>k. save_error ev k = None) \<and>
    (\<forall>k. insert_reply ev k = Rejected e) \<and> isRateLimitError e \<and>
    posts_json w0 = Content ps \<and>
    loadProgress w0 = Inr pr \<and>
    0 \<le> lastProcessed pr + 1 \<and> lastProcessed pr + 1 < int (length ps) \<and>
    ps ! nat (lastProcessed pr + 1) = Post p0 \<and>
    loadPostedIds w0 = Inr ids0 \<and> title p0 \<notin> set ids0 \<and>
    fetchExistingTitles ev w0 = Some (Inr ts0, w2) \<and> title p0 \<notin> set ts0 \<longrightarrow>
      (\<exists>w' r. main ev w0 = Some (1, w') \<and> n_insert w' = n_insert w0 + 5 \<and>
         reports w' = reports w0 @ [r] \<and> str_includes (terminationReason r) ''rate limit'' \<and>
         visited (trace w') = visited (trace w0) @ [lastProcessed pr + 1]))"
  using retry_exhausted[of ev p ids ts w e ids1 ts1 w1 a] rate_limit_message[of a e]
    run_rate_limited[of ev e w0 ps pr p0 ids0 ts0 w2]
  by blast

theorem rate_limit_exhaustion_ends_job_witness:
  "publish_once (always_rejecting quota_exceeded) (titled ''X'') [] [] (fresh [Post (titled ''X'')])
     = (Inl quota_exceeded, [], [],
        (fresh [Post (titled ''X'')])\<lparr>n_insert := 1, trace := [Insert (request_of (titled ''X''))]\<rparr>) \<and>
   isRateLimitError quota_exceeded \<and> \<not> 5 < MAX_RETRIES \<and>
   postToBloggerWithRetry (always_rejecting quota_exceeded) (titled ''X'') [] [] 5
       (fresh [Post (titled ''X'')])
     = (Inl (rate_limit_exceeded 5 quota_exceeded), [], [],
        (fresh [Post (titled ''X'')])\<lparr>n_insert := 1, trace := [Insert (request_of (titled ''X''))]\<rparr>) \<and>
   fetchExistingTitles (always_rejecting quota_exceeded) (fresh [Post (titled ''X'')])
     = Some (Inr [], written (ExistingTitles []) ((fresh [Post (titled ''X'')])\<lparr>n_list := 1\<rparr>)) \<and>
   (\<exists>w' r. main (always_rejecting quota_exceeded) (fresh [Post (titled ''X'')]) = Some (1, w') \<and>
      n_insert w' = 5 \<and> reports w' = [r] \<and>
      str_includes (terminationReason r) ''rate limit'' \<and> visited (trace w') = [0])"
proof -
  let ?ev = "always_rejecting quota_exceeded"
  let ?p = "titled ''X''"
  let ?w = "fresh [Post ?p]"
  let ?w1 = "?w\<lparr>n_insert := 1, trace := [Insert (request_of ?p)]\<rparr>"
  let ?w2 = "written (ExistingTitles []) (?w\<lparr>n_list := 1\<rparr>)"
  let ?pr = "\<lparr>lastProcessed = - 1, failed = []\<rparr>"
  have po: "publish_once ?ev ?p [] [] ?w = (Inl quota_exceeded, [], [], ?w1)"
    by (simp add: publish_once_def always_rejecting_def remote_def has_def fresh_def)
  have rl: "isRateLimitError quota_exceeded"
    by (simp add: isRateLimitError_def quota_exceeded_def)
  have a: "\<not> 5 < MAX_RETRIES" by (simp add: MAX_RETRIES_def)
  have env: "required_vars ?ev \<and> (\<forall>k. save_error ?ev k = None) \<and>
      (\<forall>k. insert_reply ?ev k = Rejected quota_exceeded)"
    by (simp add: always_rejecting_def remote_def)
  have files: "posts_json ?w = Content [Post ?p] \<and>
      loadProgress ?w = Inr ?pr \<and>
      0 \<le> lastProcessed ?pr + 1 \<and> lastProcessed ?pr + 1 < int (length [Post ?p]) \<and>
      [Post ?p] ! nat (lastProcessed ?pr + 1) = Post ?p \<and>
      loadPostedIds ?w = Inr [] \<and> title ?p \<notin> set []"
    by (simp add: fresh_def loadJsonFile_def loadProgress_def
        repair_def default_progress_def stringify_def loadPostedIds_def enoent_def new_Set_def)
  have fetch: "fetchExistingTitles ?ev ?w = Some (Inr [], ?w2)"
    by (simp add: fetchExistingTitles_def refresh_titles_def list_pages.simps saveJsonFile_def
        loadJsonFile_def always_rejecting_def remote_def fresh_def enoent_def)
  have z: "n_insert ?w = 0 \<and> reports ?w = [] \<and> visited (trace ?w) = []"
    by (simp add: fresh_def)
  from rate_limit_exhaustion_ends_job[of ?ev ?p "[]" "[]" ?w quota_exceeded "[]" "[]" ?w1 5
      ?w "[Post ?p]" ?pr ?p "[]" "[]" ?w2] po rl a env files fetch z
  show ?thesis by simp
qed

text \<open>
  C4, as the code has it. When attempt \<open>a\<close>, with \<open>1 \<le> a < MAX_RETRIES\<close>, fails with an
  error that \<open>isRateLimitError\<close> accepts, the function waits and goes on with attempt
  \<open>a + 1\<close>; the wait is 3600000 ms when the message contains "quotaExceeded" or the code
  is 403, else 60000 ms when the code is 429, else \<open>10000 * 2 ^ (a - 1)\<close> ms. The last
  case includes a "Daily Limit Exceeded" message that comes with neither status. A
  rejected insert call of a post with an unknown title is such a failed attempt.
\<close>

theorem retry_wait_by_kind:
  "(1 \<le> a \<and> a < MAX_RETRIES \<and> publish_once ev p ids ts w = (Inl e, ids1, ts1, w1) \<and>
    isRateLimitError e \<longrightarrow>
      postToBloggerWithRetry ev p ids ts a w =
        postToBloggerWithRetry ev p ids1 ts1 (a + 1)
          (w1\<lparr>trace := trace w1 @
             [Backoff (if str_includes (message e) ''quotaExceeded'' \<or> code e = NumCode 403
                       then 3600000
                       else if code e = NumCode 429 then 60000
                       else 10000 * 2 ^ (a - 1))]\<rparr>)) \<and>
   (\<not> has ids (title p) \<and> \<not> has ts (title p) \<and> insert_reply ev (n_insert w) = Rejected e \<longrightarrow>
      publish_once ev p ids ts w =
        (Inl e, ids, ts,
         w\<lparr>n_insert := n_insert w + 1, trace := trace w @ [Insert (request_of p)]\<rparr>))"
proof -
  have "retry_wait e a =
          (if str_includes (message e) ''quotaExceeded'' \<or> code e = NumCode 403 then 3600000
           else if code e = NumCode 429 then 60000 else 10000 * 2 ^ (a - 1))" if "1 \<le> a"
    using that by (simp add: retry_wait_def QUOTA_DELAY_def BASE_DELAY_def)
  then show ?thesis
    using retry_again[of ev p ids ts w e ids1 ts1 w1 a] publish_once_rejected[of ids p ts ev w e]
    by simp
qed

theorem retry_wait_by_kind_witness:
  "(1::nat) \<le> 1 \<and> 1 < MAX_RETRIES \<and>
   \<not> has [] (title (titled ''X'')) \<and>
   insert_reply (once_rejecting daily_limit) (n_insert (fresh [Post (titled ''X'')]))
     = Rejected daily_limit \<and>
   isRateLimitError daily_limit \<and>
   publish_once (once_rejecting daily_limit) (titled ''X'') [] [] (fresh [Post (titled ''X'')])
     = (Inl daily_limit, [], [],
        (fresh [Post (titled ''X'')])\<lparr>n_insert := 1, trace := [Insert (request_of (titled ''X''))]\<rparr>) \<and>
   postToBloggerWithRetry (once_rejecting daily_limit) (titled ''X'') [] [] 1
       (fresh [Post (titled ''X'')])
     = postToBloggerWithRetry (once_rejecting daily_limit) (titled ''X'') [] [] 2
         ((fresh [Post (titled ''X'')])
            \<lparr>n_insert := 1, trace := [Insert (request_of (titled ''X'')), Backoff 10000]\<rparr>)"
proof -
  let ?ev = "once_rejecting daily_limit"
  let ?p = "titled ''X''"
  let ?w = "fresh [Post ?p]"
  let ?w1 = "?w\<lparr>n_insert := 1, trace := [Insert (request_of ?p)]\<rparr>"
  have h: "(1::nat) \<le> 1 \<and> 1 < MAX_RETRIES \<and> \<not> has [] (title ?p) \<and>
      insert_reply ?ev (n_insert ?w) = Rejected daily_limit"
    by (simp add: MAX_RETRIES_def has_def once_rejecting_def remote_def fresh_def)
  have rl: "isRateLimitError daily_limit"
    by (simp add: isRateLimitError_def daily_limit_def str_includes_sublist)
  have nq: "\<not> str_includes (message daily_limit) ''quotaExceeded''"
    "code daily_limit \<noteq> NumCode 403" "code daily_limit \<noteq> NumCode 429"
    by (simp_all add: daily_limit_def str_includes.simps)
  have w1: "?w\<lparr>n_insert := n_insert ?w + 1, trace := trace ?w @ [Insert (request_of ?p)]\<rparr> = ?w1"
    by (simp add: fresh_def)
  from retry_wait_by_kind[of 1 ?ev ?p "[]" "[]" ?w daily_limit "[]" "[]" ?w1] h rl nq w1
  show ?thesis by (simp add: numeral_2_eq_2)
qed

theorem retry_wait_by_kind_counterexample:
  "spec_quota_failure daily_limit \<and> spec_retry_wait daily_limit 1 = 3600000 \<and>
   backoffs (trace (world_after (postToBloggerWithRetry (once_rejecting daily_limit)
      (titled ''X'') [] [] 1 (fresh [Post (titled ''X'')])))) = [10000]"
proof -
  have q: "spec_quota_failure daily_limit"
    by (simp add: spec_quota_failure_def daily_limit_def str_includes_sublist)
  have rl: "isRateLimitError daily_limit"
    by (simp add: isRateLimitError_def daily_limit_def str_includes_sublist)
  have nq: "\<not> str_includes (message daily_limit) ''quotaExceeded''"
    by (simp add: daily_limit_def str_includes.simps)
  have "backoffs (trace (world_after (postToBloggerWithRetry (once_rejecting daily_limit)
      (titled ''X'') [] [] 1 (fresh [Post (titled ''X'')])))) = [10000]"
    using rl nq
    by (simp add: postToBloggerWithRetry.simps once_rejecting_def remote_def fresh_def
        titled_def publish_once_def has_def add_def request_of_def savePostedIds_def
        saveJsonFile_def written_def store_def retry_wait_def MAX_RETRIES_def BASE_DELAY_def
        QUOTA_DELAY_def world_after_def daily_limit_def Let_def)
  with q show ?thesis by (simp add: spec_retry_wait_def)
qed

text \<open>
  C5, as the code has it. An error that \<open>isRateLimitError\<close> does not accept (its code is
  neither 429 nor 403, its message contains none of the four patterns and its reasons
  neither of the two) is thrown on as it is, at any attempt number, without a wait and
  without another insert call. Every error with code 403 is accepted and retried,
  whatever its reason.
\<close>

theorem fatal_error_propagates:
  "(publish_once ev p ids ts w = (Inl e, ids1, ts1, w1) \<and> \<not> isRateLimitError e \<longrightarrow>
      postToBloggerWithRetry ev p ids ts a w = (Inl e, ids1, ts1, w1)) \<and>
   (\<not> has ids (title p) \<and> \<not> has ts (title p) \<and> insert_reply ev (n_insert w) = Rejected e \<and>
    \<not> isRateLimitError e \<longrightarrow>
      postToBloggerWithRetry ev p ids ts a w =
        (Inl e, ids, ts,
         w\<lparr>n_insert := n_insert w + 1, trace := trace w @ [Insert (request_of p)]\<rparr>)) \<and>
   (code e = NumCode 403 \<longrightarrow> isRateLimitError e)"
  using retry_fatal[of ev p ids ts w e ids1 ts1 w1 a]
    retry_fatal[OF publish_once_rejected[of ids p ts ev w e], of a]
  by (auto simp: isRateLimitError_def)

theorem fatal_error_propagates_witness:
  "publish_once (always_rejecting backend_error) (titled ''X'') [] [] (fresh [Post (titled ''X'')])
     = (Inl backend_error, [], [],
        (fresh [Post (titled ''X'')])\<lparr>n_insert := 1, trace := [Insert (request_of (titled ''X''))]\<rparr>) \<and>
   \<not> isRateLimitError backend_error \<and>
   \<not> has [] (title (titled ''X'')) \<and>
   insert_reply (always_rejecting backend_error) (n_insert (fresh [Post (titled ''X'')]))
     = Rejected backend_error \<and>
   postToBloggerWithRetry (always_rejecting backend_error) (titled ''X'') [] [] 1
       (fresh [Post (titled ''X'')])
     = (Inl backend_error, [], [],
        (fresh [Post (titled ''X'')])\<lparr>n_insert := 1, trace := [Insert (request_of (titled ''X''))]\<rparr>) \<and>
   code forbidden = NumCode 403 \<and> isRateLimitError forbidden"
proof -
  let ?ev = "always_rejecting backend_error"
  let ?p = "titled ''X''"
  let ?w = "fresh [Post ?p]"
  let ?w1 = "?w\<lparr>n_insert := 1, trace := [Insert (request_of ?p)]\<rparr>"
  have po: "publish_once ?ev ?p [] [] ?w = (Inl backend_error, [], [], ?w1)"
    by (simp add: publish_once_def always_rejecting_def remote_def has_def fresh_def)
  have nrl: "\<not> isRateLimitError backend_error"
    by (simp add: isRateLimitError_def backend_error_def str_includes.simps)
  have h: "\<not> has [] (title ?p) \<and> insert_reply ?ev (n_insert ?w) = Rejected backend_error"
    by (simp add: has_def always_rejecting_def remote_def)
  have c: "code forbidden = NumCode 403" by (simp add: forbidden_def)
  from fatal_error_propagates[of ?ev ?p "[]" "[]" ?w backend_error "[]" "[]" ?w1 1]
    fatal_error_propagates[of ?ev ?p "[]" "[]" ?w forbidden "[]" "[]" ?w1 1] po nrl h c
  show ?thesis by simp
qed

theorem fatal_error_propagates_counterexample:
  "\<not> spec_quota_failure forbidden \<and> \<not> spec_rate_limit_failure forbidden \<and>
   backoffs (trace (world_after (postToBloggerWithRetry (always_rejecting forbidden)
      (titled ''X'') [] [] 1 (fresh [Post (titled ''X'')]))))
     = [3600000, 3600000, 3600000, 3600000] \<and>
   n_insert (world_after (postToBloggerWithRetry (always_rejecting forbidden)
      (titled ''X'') [] [] 1 (fresh [Post (titled ''X'')]))) = 5"
proof -
  have q: "\<not> spec_quota_failure forbidden" "\<not> spec_rate_limit_failure forbidden"
    by (simp_all add: spec_quota_failure_def spec_rate_limit_failure_def forbidden_def
        quota_related_def str_includes.simps)
  have rl: "isRateLimitError forbidden"
    by (simp add: isRateLimitError_def forbidden_def)
  have w: "retry_wait forbidden a = 3600000" for a
    by (simp add: retry_wait_def forbidden_def QUOTA_DELAY_def)
  have "postToBloggerWithRetry (always_rejecting forbidden) (titled ''X'') [] [] 1
          (fresh [Post (titled ''X'')])
        = (Inl (rate_limit_exceeded MAX_RETRIES forbidden), [], [],
           (fresh [Post (titled ''X'')])\<lparr>n_insert := n_insert (fresh [Post (titled ''X'')])
                 + Suc (Suc (Suc (Suc 0))) + 1,
              trace := trace (fresh [Post (titled ''X'')]) @
                 failing_attempts (request_of (titled ''X'')) forbidden 1 (Suc (Suc (Suc (Suc 0))))\<rparr>)"
    by (rule always_rejected[OF _ rl])
       (simp_all add: always_rejecting_def remote_def has_def MAX_RETRIES_def)
  then show ?thesis using q
    by (simp add: world_after_def fresh_def w)
qed

text \<open>
  C7. The wait between two items is 10000 ms while fewer than 40 titles are in the set
  of posted identifiers, 30000 ms from 40 to 44 and 33000 ms from 45 on, so it never
  decreases as that number grows. When the \<^verbatim>\<open>try\<close> block of an item completes (the post
  was published or skipped), the round ends normally, and the wait, taken at the number
  of titles then in the set, is the last thing it does when another item follows; every
  round that ends normally and is not the last waits exactly once, and the round of the
  last item, like a round that ends the job, does not wait. A first run over new posts
  with distinct titles that the blog accepts, storage working, beside a set of \<open>n\<close>
  posted titles, exits with code 0 and has waited between the items, in order, the
  delays for \<open>n + 1\<close>, \<open>n + 2\<close>, ... titles: one wait less than there are posts.
\<close>

theorem pacing_between_items:
  "pacing_delay n = (if n < 40 then 10000 else if n < 45 then 30000 else 33000) \<and>
   (m \<le> n \<longrightarrow> pacing_delay m \<le> pacing_delay n) \<and>
   (entry_at ps i = Inr p \<and>
    try_item ev (length ps) i p st (w\<lparr>trace := trace w @ [Visit i]\<rparr>) = (None, st1, w1) \<longrightarrow>
      iteration ev ps i st w =
        (Normal st1,
         if i < int (length ps) - 1
         then w1\<lparr>trace := trace w1 @ [Pace (pacing_delay (length (postedIds st1)))]\<rparr>
         else w1)) \<and>
   (iteration ev ps i st w = (r, w') \<longrightarrow>
      paces (trace w') = paces (trace w) @
        (case r of
           Normal st' \<Rightarrow>
             if i < int (length ps) - 1 then [pacing_delay (length (postedIds st'))] else []
         | _ \<Rightarrow> [])) \<and>
   (required_vars ev \<and> (\<forall>k. save_error ev k = None) \<and>
    (\<forall>k. \<exists>u. insert_reply ev k = Resolved u) \<and>
    posts_json w0 = Content (map Post qs) \<and>
    loadProgress w0 = Inr pr \<and> lastProcessed pr = - 1 \<and>
    loadPostedIds w0 = Inr ids \<and> fetchExistingTitles ev w0 = Some (Inr ts, w2) \<and>
    distinct (map title qs) \<and> set (map title qs) \<inter> (set ids \<union> set ts) = {} \<longrightarrow>
      (\<exists>w3. main ev w0 = Some (0, w3) \<and>
         paces (trace w3) = paces (trace w0) @
           map (\<lambda>j. pacing_delay (length ids + j + 1)) [0..<length qs - 1]))"
proof -
  have 3: "iteration ev ps i st w =
        (Normal st1,
         if i < int (length ps) - 1
         then w1\<lparr>trace := trace w1 @ [Pace (pacing_delay (length (postedIds st1)))]\<rparr>
         else w1)"
    if "entry_at ps i = Inr p"
      "try_item ev (length ps) i p st (w\<lparr>trace := trace w @ [Visit i]\<rparr>) = (None, st1, w1)"
    using iteration_after_try[OF that] by (simp add: pace_def size_of_def)
  have 4: "paces (trace w') = paces (trace w) @
        (case r of
           Normal st' \<Rightarrow>
             if i < int (length ps) - 1 then [pacing_delay (length (postedIds st'))] else []
         | _ \<Rightarrow> [])"
    if "iteration ev ps i st w = (r, w')"
    using iteration_paces[OF that] by (simp add: size_of_def split: completion.splits)
  show ?thesis
    using pacing_delay_tiers[of n] pacing_delay_mono[of m n] 3 4
      run_accepted[of ev w0 qs pr ids ts w2]
    by blast
qed


theorem pacing_between_items_witness:
  "(39::nat) \<le> 45 \<and> pacing_delay 39 \<le> pacing_delay 45 \<and>
   pacing_delay 39 = 10000 \<and> pacing_delay 40 = 30000 \<and> pacing_delay 45 = 33000 \<and>
   entry_at two_posts 0 = Inr (titled ''A'') \<and>
   iteration accepting two_posts 0 start_state (fresh two_posts) =
     (Normal (advance 0 (start_state\<lparr>postedIds := [''A''], existingTitles := [''A'']\<rparr>)),
      (written (ExistingTitles [''A'']) (written (PostedIds [''A''])
         ((fresh two_posts)\<lparr>n_insert := 1,
             trace := [Visit 0, Insert (request_of (titled ''A''))]\<rparr>)))
       \<lparr>trace := [Visit 0, Insert (request_of (titled ''A'')), Saved (PostedIds [''A'']),
                  Saved (ExistingTitles [''A'']), Pace 10000]\<rparr>) \<and>
   paces (trace (snd (iteration accepting two_posts 0 start_state (fresh two_posts)))) = [10000] \<and>
   paces (trace (snd (iteration accepting two_posts 1 start_state (fresh two_posts)))) = [] \<and>
   loadPostedIds busy = Inr earlier_titles \<and> length earlier_titles = 38 \<and>
   fetchExistingTitles accepting busy = Some (Inr earlier_titles, busy) \<and>
   (\<exists>w3. main accepting busy = Some (0, w3) \<and>
      paces (trace w3) = [10000, 30000, 30000, 30000, 30000, 30000, 33000])"
proof -
  let ?w = "fresh two_posts"
  let ?st1 = "advance 0 (start_state\<lparr>postedIds := [''A''], existingTitles := [''A'']\<rparr>)"
  let ?w1 = "written (ExistingTitles [''A'']) (written (PostedIds [''A''])
         (?w\<lparr>n_insert := 1, trace := [Visit 0, Insert (request_of (titled ''A''))]\<rparr>))"
  let ?pr = "\<lparr>lastProcessed = - 1, failed = []\<rparr>"
  have le: "(39::nat) \<le> 45" by simp
  have e: "entry_at two_posts 0 = Inr (titled ''A'')"
    by (simp add: entry_at_def two_posts_def)
  have saves: "\<forall>k. save_error accepting k = None"
    by (simp add: accepting_def remote_def)
  have env: "required_vars accepting \<and> (\<forall>k. \<exists>u. insert_reply accepting k = Resolved u)"
    by (simp add: accepting_def remote_def)
  have t: "try_item accepting (length two_posts) 0 (titled ''A'') start_state
             (?w\<lparr>trace := trace ?w @ [Visit 0]\<rparr>) = (None, ?st1, ?w1)"
    by (subst try_item_success[OF saves, where url = "''url''"])
       (simp_all add: start_state_def has_def add_def accepting_def remote_def fresh_def
          titled_def two_posts_def advance_def Let_def)
  have sz: "length (postedIds ?st1) = 1" by (simp add: advance_def)
  have tr: "trace ?w1 = [Visit 0, Insert (request_of (titled ''A'')), Saved (PostedIds [''A'']),
                  Saved (ExistingTitles [''A''])]"
    by (simp add: written_def store_def)
  have len: "length two_posts = 2" by (simp add: two_posts_def)
  let ?w2 = "?w1\<lparr>trace := trace ?w1 @ [Pace (pacing_delay 1)]\<rparr>"
  obtain r1 w1' where it1: "iteration accepting two_posts 1 start_state ?w = (r1, w1')"
    by (metis surj_pair)
  have p0: "paces (trace ?w) = []" by (simp add: fresh_def)
  have l38: "length earlier_titles = 38" by (simp add: earlier_titles_def)
  have ids: "loadPostedIds busy = Inr earlier_titles"
    by (simp add: loadPostedIds_def loadJsonFile_def busy_def fresh_def
        new_Set_distinct[OF distinct_earlier_titles])
  have fetch: "fetchExistingTitles accepting busy = Some (Inr earlier_titles, busy)"
    using l38
    by (simp add: fetchExistingTitles_def loadJsonFile_def busy_def fresh_def
        new_Set_distinct[OF distinct_earlier_titles])
  have files: "posts_json busy = Content (map Post eight_new_posts) \<and>
      loadProgress busy = Inr ?pr \<and> lastProcessed ?pr = - 1 \<and> paces (trace busy) = [] \<and>
      length eight_new_posts - 1 = 7"
    by (simp add: busy_def fresh_def loadProgress_def loadJsonFile_def enoent_def repair_def
        default_progress_def eight_new_posts_def)
  have titles: "distinct (map title eight_new_posts) \<and>
      set (map title eight_new_posts) \<inter> (set earlier_titles \<union> set earlier_titles) = {}"
    by (auto simp: eight_new_posts_def titled_def earlier_titles_def)
  have u7: "[0..<7] = [0, 1, 2, 3, 4, 5, 6]" by (simp add: upt_rec)
  note I0 = pacing_between_items[of 39 39 two_posts 0 "titled ''A''" accepting start_state ?w
      ?st1 ?w1 "Normal ?st1" ?w2 busy eight_new_posts ?pr earlier_titles earlier_titles busy]
  note I1 = pacing_between_items[of 45 39 two_posts 1 "titled ''A''" accepting start_state ?w
      ?st1 ?w1 r1 w1' busy eight_new_posts ?pr earlier_titles earlier_titles busy]
  note I2 = pacing_between_items[of 40 1 two_posts 1 "titled ''A''" accepting start_state ?w
      ?st1 ?w1 r1 w1' busy eight_new_posts ?pr earlier_titles earlier_titles busy]
  note I3 = pacing_between_items[of 1 1 two_posts 1 "titled ''A''" accepting start_state ?w
      ?st1 ?w1 r1 w1' busy eight_new_posts ?pr earlier_titles earlier_titles busy]
  have it0: "iteration accepting two_posts 0 start_state ?w = (Normal ?st1, ?w2)"
    using I0 e t sz len by simp
  have pa0: "paces (trace (snd (iteration accepting two_posts 0 start_state ?w))) = [pacing_delay 1]"
    using I0 it0 sz p0 len by simp
  have pa1: "paces (trace (snd (iteration accepting two_posts 1 start_state ?w))) = []"
    using I1 it1 p0 len by (simp split: completion.splits)
  have d: "pacing_delay 1 = 10000" "pacing_delay 39 = 10000" "pacing_delay 40 = 30000"
    "pacing_delay 45 = 33000"
    using I0 I1 I2 I3 by simp_all
  have mono: "pacing_delay 39 \<le> pacing_delay 45"
    using I1 le by simp
  from I0 env saves files ids fetch titles
  have "\<exists>w3. main accepting busy = Some (0, w3) \<and>
      paces (trace w3) = map (\<lambda>j. pacing_delay (length earlier_titles + j + 1)) [0..<7]"
    by simp
  then have run: "\<exists>w3. main accepting busy = Some (0, w3) \<and>
      paces (trace w3) = [10000, 30000, 30000, 30000, 30000, 30000, 33000]"
    unfolding l38 u7 by (simp add: pacing_delay_def BASE_DELAY_def)
  show ?thesis
    using le mono d e it0 pa0 pa1 tr ids l38 fetch run by simp
qed

text \<open>
  C10. An entry of \<^verbatim>\<open>posts.json\<close> with no title, or with a title that is not a string,
  makes line 281 throw before the \<^verbatim>\<open>try\<close> of the round is entered: the round and the loop
  end with that error and have done nothing but enter the round, so no failed entry is
  recorded and no file is written. Whatever \<^verbatim>\<open>postToBlogger\<close> throws goes to the handler
  of line 349, which always ends the process with code 1. So a run whose first entry to
  process is such an entry exits with code 1, leaves \<^verbatim>\<open>progress.json\<close> as it was, makes no
  insert call and visits no further index. The report of the handler is an attempt: the
  writes succeeding and the files being readable, the run writes one report whose reason
  starts with "Fatal error: " and whose failed posts are those of the cursor file, when
  that file is missing or holds a \<^verbatim>\<open>failed\<close> array; when the file has no \<^verbatim>\<open>failed\<close>, the
  handler itself throws at line 352 and the run writes no report.
\<close>

theorem missing_title_aborts:
  "(0 \<le> i \<and> i < int (length ps) \<and> (ps ! nat i = NoTitle \<or> ps ! nat i = NonStringTitle) \<longrightarrow>
      (\<exists>e. iteration ev ps i st w = (Throw e, w\<lparr>trace := trace w @ [Visit i]\<rparr>) \<and>
           loop ev ps i st w = (Throw e, w\<lparr>trace := trace w @ [Visit i]\<rparr>))) \<and>
   (postToBlogger ev w0 = Some (Throw e0, w1) \<longrightarrow>
      main ev w0 = Some (fatal_handler ev e0 w1) \<and> fst (fatal_handler ev e0 w1) = 1) \<and>
   (required_vars ev \<and> (\<forall>k. save_error ev k = None) \<and> posts_json w0 = Content ps \<and>
    loadJsonFile (progress_json w0) default_progress = Inr pf \<and>
    0 \<le> file_lastProcessed pf + 1 \<and> file_lastProcessed pf + 1 < int (length ps) \<and>
    (ps ! nat (file_lastProcessed pf + 1) = NoTitle \<or>
     ps ! nat (file_lastProcessed pf + 1) = NonStringTitle) \<and>
    loadPostedIds w0 = Inr ids \<and> fetchExistingTitles ev w0 = Some (Inr ts, w2) \<longrightarrow>
      (\<exists>w'. main ev w0 = Some (1, w') \<and> progress_json w' = progress_json w0 \<and>
         n_insert w' = n_insert w0 \<and>
         visited (trace w') = visited (trace w0) @ [file_lastProcessed pf + 1] \<and>
         (\<forall>fs. file_failed pf = Some fs \<longrightarrow>
            (\<exists>r. reports w' = reports w0 @ [r] \<and>
               prefix ''Fatal error: '' (terminationReason r) \<and> failedPosts r = fs)) \<and>
         (file_failed pf = None \<longrightarrow> reports w' = reports w0)))"
proof -
  have 1: "\<exists>e. iteration ev ps i st w = (Throw e, w\<lparr>trace := trace w @ [Visit i]\<rparr>) \<and>
           loop ev ps i st w = (Throw e, w\<lparr>trace := trace w @ [Visit i]\<rparr>)"
    if h: "0 \<le> i" "i < int (length ps)" "ps ! nat i = NoTitle \<or> ps ! nat i = NonStringTitle"
  proof -
    from entry_at_untitled[OF h] obtain e where e: "entry_at ps i = Inl e" by blast
    then show ?thesis using h(2) by (simp add: loop_step iteration_untitled)
  qed
  have 2: "main ev w0 = Some (fatal_handler ev e0 w1) \<and> fst (fatal_handler ev e0 w1) = 1"
    if "postToBlogger ev w0 = Some (Throw e0, w1)"
    using that by (simp add: main_def fatal_handler_code)
  show ?thesis
    using 1 2 run_untitled[of ev w0 ps pf ids ts w2] by blast
qed

theorem missing_title_aborts_witness:
  "(0::int) \<le> 0 \<and> 0 < int (length first_untitled) \<and> first_untitled ! nat 0 = NoTitle \<and>
   (\<exists>e. iteration accepting first_untitled 0 start_state (fresh first_untitled)
           = (Throw e, (fresh first_untitled)\<lparr>trace := [Visit 0]\<rparr>) \<and>
        loop accepting first_untitled 0 start_state (fresh first_untitled)
           = (Throw e, (fresh first_untitled)\<lparr>trace := [Visit 0]\<rparr>)) \<and>
   fetchExistingTitles accepting (fresh first_untitled)
     = Some (Inr [], written (ExistingTitles []) ((fresh first_untitled)\<lparr>n_list := 1\<rparr>)) \<and>
   (\<exists>e w1. postToBlogger accepting (fresh first_untitled) = Some (Throw e, w1) \<and>
      main accepting (fresh first_untitled) = Some (fatal_handler accepting e w1)) \<and>
   (\<exists>w' r. main accepting (fresh first_untitled) = Some (1, w') \<and>
      progress_json w' = Failing enoent \<and> n_insert w' = 0 \<and> reports w' = [r] \<and>
      prefix ''Fatal error: '' (terminationReason r) \<and> failedPosts r = [] \<and>
      visited (trace w') = [0]) \<and>
   loadJsonFile (progress_json bare_cursor) default_progress
     = Inr \<lparr>file_lastProcessed = - 1, file_failed = None\<rparr> \<and>
   (\<exists>w'. main accepting bare_cursor = Some (1, w') \<and>
      progress_json w' = progress_json bare_cursor \<and> n_insert w' = 0 \<and> reports w' = [] \<and>
      visited (trace w') = [0])"
proof -
  let ?ev = accepting
  let ?ps = first_untitled
  let ?w = "fresh ?ps"
  let ?w2 = "written (ExistingTitles []) (?w\<lparr>n_list := 1\<rparr>)"
  let ?b2 = "written (ExistingTitles []) (bare_cursor\<lparr>n_list := 1\<rparr>)"
  let ?pf = "\<lparr>file_lastProcessed = - 1, file_failed = Some []\<rparr>"
  let ?bf = "\<lparr>file_lastProcessed = - 1, file_failed = None\<rparr>"
  have h1: "(0::int) \<le> 0 \<and> 0 < int (length ?ps) \<and> ?ps ! nat 0 = NoTitle"
    by (simp add: first_untitled_def)
  have env: "required_vars ?ev \<and> (\<forall>k. save_error ?ev k = None)"
    by (simp add: accepting_def remote_def)
  have files: "posts_json ?w = Content ?ps \<and>
      loadJsonFile (progress_json ?w) default_progress = Inr ?pf \<and>
      0 \<le> file_lastProcessed ?pf + 1 \<and> file_lastProcessed ?pf + 1 < int (length ?ps) \<and>
      ?ps ! nat (file_lastProcessed ?pf + 1) = NoTitle \<and> loadPostedIds ?w = Inr []"
    by (simp add: fresh_def loadJsonFile_def default_progress_def loadPostedIds_def enoent_def
        new_Set_def first_untitled_def)
  have bfiles: "posts_json bare_cursor = Content ?ps \<and>
      loadJsonFile (progress_json bare_cursor) default_progress = Inr ?bf \<and>
      0 \<le> file_lastProcessed ?bf + 1 \<and> file_lastProcessed ?bf + 1 < int (length ?ps) \<and>
      ?ps ! nat (file_lastProcessed ?bf + 1) = NoTitle \<and> loadPostedIds bare_cursor = Inr []"
    by (simp add: bare_cursor_def fresh_def loadJsonFile_def loadPostedIds_def enoent_def
        new_Set_def first_untitled_def)
  have fetch: "fetchExistingTitles ?ev ?w = Some (Inr [], ?w2)"
    by (simp add: fetchExistingTitles_def refresh_titles_def list_pages.simps saveJsonFile_def
        loadJsonFile_def accepting_def remote_def fresh_def enoent_def)
  have bfetch: "fetchExistingTitles ?ev bare_cursor = Some (Inr [], ?b2)"
    by (simp add: fetchExistingTitles_def refresh_titles_def list_pages.simps saveJsonFile_def
        loadJsonFile_def accepting_def remote_def bare_cursor_def fresh_def enoent_def)
  have z: "n_insert ?w = 0 \<and> reports ?w = [] \<and> visited (trace ?w) = [] \<and> trace ?w = [] \<and>
      progress_json ?w = Failing enoent"
    by (simp add: fresh_def)
  have bz: "n_insert bare_cursor = 0 \<and> reports bare_cursor = [] \<and>
      visited (trace bare_cursor) = []"
    by (simp add: bare_cursor_def fresh_def)
  note T = missing_title_aborts[of 0 ?ps ?ev start_state ?w ?w enoent ?w ?pf "[]" "[]" ?w2]
  note B = missing_title_aborts[of 0 ?ps ?ev start_state ?w bare_cursor enoent ?w ?bf "[]" "[]" ?b2]
  from T h1 z have a: "\<exists>e. iteration ?ev ?ps 0 start_state ?w = (Throw e, ?w\<lparr>trace := [Visit 0]\<rparr>) \<and>
        loop ?ev ?ps 0 start_state ?w = (Throw e, ?w\<lparr>trace := [Visit 0]\<rparr>)"
    by simp
  from T env files fetch z
  have c: "\<exists>w' r. main ?ev ?w = Some (1, w') \<and>
      progress_json w' = Failing enoent \<and> n_insert w' = 0 \<and> reports w' = [r] \<and>
      prefix ''Fatal error: '' (terminationReason r) \<and> failedPosts r = [] \<and>
      visited (trace w') = [0]"
    by auto
  from B env bfiles bfetch bz
  have d: "\<exists>w'. main ?ev bare_cursor = Some (1, w') \<and>
      progress_json w' = progress_json bare_cursor \<and> n_insert w' = 0 \<and> reports w' = [] \<and>
      visited (trace w') = [0]"
    by auto
  have "\<exists>e w1. postToBlogger ?ev ?w = Some (Throw e, w1)"
  proof -
    from a obtain e where l: "loop ?ev ?ps 0 start_state ?w = (Throw e, ?w\<lparr>trace := [Visit 0]\<rparr>)"
      by blast
    have "\<exists>e. loop ?ev ?ps 0 start_state (sendWhatsAppMessage ?ev (Starting (length ?ps) (size_of [])) ?w2)
        = (Throw e, (sendWhatsAppMessage ?ev (Starting (length ?ps) (size_of [])) ?w2)
             \<lparr>trace := trace (sendWhatsAppMessage ?ev (Starting (length ?ps) (size_of [])) ?w2) @ [Visit 0]\<rparr>)"
      using missing_title_aborts[of 0 ?ps ?ev start_state
          "sendWhatsAppMessage ?ev (Starting (length ?ps) (size_of [])) ?w2"] h1 by blast
    moreover have "loadProgress ?w = Inr (repair ?pf)"
      using files by (simp add: loadProgress_def)
    ultimately show ?thesis
      using env files fetch
      by (auto simp: postToBlogger_started[of ?ev ?w ?ps "repair ?pf" "[]" "[]" ?w2]
          start_state_def repair_def)
  qed
  then obtain e w1 where p: "postToBlogger ?ev ?w = Some (Throw e, w1)" by blast
  with missing_title_aborts[of _ _ ?ev _ _ ?w e w1]
  have b: "\<exists>e w1. postToBlogger ?ev ?w = Some (Throw e, w1) \<and>
      main ?ev ?w = Some (fatal_handler ?ev e w1)"
    by blast
  show ?thesis using h1 a fetch b c d bfiles by blast
qed

text \<open>
  C6. A round that ends normally leaves \<open>lastProcessed\<close> as it was or sets it to the
  index of the round. When the loop starts at an index above the cursor, as it does,
  the cursor values written to \<^verbatim>\<open>progress.json\<close> during the loop, in order, never
  decrease and never fall below the cursor the loop started with, and the cursor in
  memory never decreases. A run that reaches its loop with the cursor \<open>pr\<close> read from
  \<^verbatim>\<open>progress.json\<close> enters the loop body for the indices from \<open>lastProcessed pr + 1\<close> on,
  in order and without a gap, up to the index where it ends; a run that exits with code
  0 has entered it for exactly the indices from \<open>lastProcessed pr + 1\<close> to the last. With
  a cursor of 1 and five entries these are 2, 3 and 4.
\<close>

theorem cursor_monotone_and_resume:
  "(lastProcessed (progress st) \<le> i \<and> iteration ev ps i st w = (Normal st1, w1) \<longrightarrow>
      (lastProcessed (progress st1) = lastProcessed (progress st) \<or>
       lastProcessed (progress st1) = i) \<and>
      lastProcessed (progress st) \<le> lastProcessed (progress st1)) \<and>
   (lastProcessed (progress st) \<le> i \<and> loop ev ps i st w = (r, w') \<longrightarrow>
      (\<exists>cs. persisted_cursors (trace w') = persisted_cursors (trace w) @ cs \<and>
            sorted (lastProcessed (progress st) # cs)) \<and>
      (\<forall>st'. r = Normal st' \<longrightarrow> lastProcessed (progress st) \<le> lastProcessed (progress st'))) \<and>
   (required_vars ev \<and> posts_json w0 = Content ps \<and>
    loadProgress w0 = Inr pr \<and>
    loadPostedIds w0 = Inr ids \<and> fetchExistingTitles ev w0 = Some (Inr ts, w2) \<and>
    main ev w0 = Some (c, w3) \<longrightarrow>
      (\<exists>k. k \<le> int (length ps) - 1 \<and>
           visited (trace w3) = visited (trace w0) @ [lastProcessed pr + 1..k]) \<and>
      (c = 0 \<longrightarrow>
         visited (trace w3) = visited (trace w0) @ [lastProcessed pr + 1..int (length ps) - 1]))"
proof -
  have 1: "(lastProcessed (progress st1) = lastProcessed (progress st) \<or>
       lastProcessed (progress st1) = i) \<and>
      lastProcessed (progress st) \<le> lastProcessed (progress st1)"
    if "lastProcessed (progress st) \<le> i" "iteration ev ps i st w = (Normal st1, w1)"
    using iteration_cursors[OF that(2)] that(1) by auto
  show ?thesis
    using 1 loop_cursors[of ev ps i st w r w'] run_visited[of ev w0 ps pr ids ts w2 c w3]
    by blast
qed

theorem cursor_monotone_and_resume_witness:
  "lastProcessed (progress (start_state\<lparr>postedIds := [''A'']\<rparr>)) \<le> 0 \<and>
   iteration accepting two_posts 0 (start_state\<lparr>postedIds := [''A'']\<rparr>) (fresh two_posts)
     = (Normal (advance 0 (start_state\<lparr>postedIds := [''A'']\<rparr>)),
        (fresh two_posts)\<lparr>trace := [Visit 0, Pace 10000]\<rparr>) \<and>
   lastProcessed (progress (advance 0 (start_state\<lparr>postedIds := [''A'']\<rparr>))) = 0 \<and>
   (\<exists>cs. persisted_cursors (trace (snd (loop accepting two_posts 0 start_state (fresh two_posts))))
            = persisted_cursors (trace (fresh two_posts)) @ cs \<and>
         sorted (lastProcessed (progress start_state) # cs)) \<and>
   required_vars accepting \<and> posts_json resumed = Content five_posts \<and>
   loadProgress resumed
     = Inr \<lparr>lastProcessed = 1, failed = []\<rparr> \<and>
   loadPostedIds resumed = Inr [''A'', ''B''] \<and>
   fetchExistingTitles accepting resumed = Some (Inr [''A'', ''B''], resumed) \<and>
   (\<exists>w'. main accepting resumed = Some (0, w') \<and> visited (trace w') = [2, 3, 4])"
proof -
  let ?st = "start_state\<lparr>postedIds := [''A'']\<rparr>"
  let ?st1 = "advance 0 ?st"
  let ?w1 = "(fresh two_posts)\<lparr>trace := [Visit 0, Pace 10000]\<rparr>"
  let ?pr = "\<lparr>lastProcessed = 1, failed = []\<rparr>"
  have lp: "lastProcessed (progress ?st) \<le> 0" "lastProcessed (progress start_state) \<le> 0"
    by (simp_all add: start_state_def)
  have it: "iteration accepting two_posts 0 ?st (fresh two_posts) = (Normal ?st1, ?w1)"
    by (simp add: iteration_def entry_at_def two_posts_def try_item_def skip_known has_def
        titled_def start_state_def advance_def pace_def pacing_delay_def size_of_def
        BASE_DELAY_def fresh_def)
  obtain r w' where l: "loop accepting two_posts 0 start_state (fresh two_posts) = (r, w')"
    by (metis surj_pair)
  have files: "required_vars accepting \<and> posts_json resumed = Content five_posts \<and>
      loadProgress resumed = Inr ?pr \<and>
      loadPostedIds resumed = Inr [''A'', ''B''] \<and>
      fetchExistingTitles accepting resumed = Some (Inr [''A'', ''B''], resumed)"
    by (simp add: accepting_def remote_def resumed_def fresh_def loadJsonFile_def loadProgress_def
        repair_def default_progress_def stringify_def
        loadPostedIds_def new_Set_def add_def fetchExistingTitles_def)
  from resumed_run obtain w3 where m: "main accepting resumed = Some (0, w3)" by blast
  have z: "visited (trace resumed) = []" "int (length five_posts) - 1 = 4"
    by (simp_all add: resumed_def fresh_def five_posts_def)
  have u: "[(2::int)..4] = [2, 3, 4]" by (simp add: upto.simps)
  note T1 = cursor_monotone_and_resume[of ?st 0 accepting two_posts "fresh two_posts" ?st1 ?w1
      r w' resumed ?pr "[''A'', ''B'']" "[''A'', ''B'']" resumed 0 w3]
  note T2 = cursor_monotone_and_resume[of start_state 0 accepting two_posts "fresh two_posts"
      ?st1 ?w1 r w' resumed ?pr "[''A'', ''B'']" "[''A'', ''B'']" resumed 0 w3]
  note T3 = cursor_monotone_and_resume[of start_state 0 accepting five_posts "fresh two_posts"
      ?st1 ?w1 r w' resumed ?pr "[''A'', ''B'']" "[''A'', ''B'']" resumed 0 w3]
  have a: "lastProcessed (progress ?st1) = 0"
    using T1 lp it by (simp add: start_state_def advance_def)
  have b: "\<exists>cs. persisted_cursors (trace (snd (loop accepting two_posts 0 start_state (fresh two_posts))))
            = persisted_cursors (trace (fresh two_posts)) @ cs \<and>
         sorted (lastProcessed (progress start_state) # cs)"
    using T2 lp(2) l by simp
  have c: "visited (trace w3) = [2, 3, 4]"
    using T3 files m z u by simp
  show ?thesis
    using lp(1) it a b files m c by blast
qed




text \<open>
  C9. A round whose publish attempt throws and which ends normally leaves
  \<open>lastProcessed\<close> as it was, has appended the failed entry, and has written exactly that
  cursor record to \<^verbatim>\<open>progress.json\<close>; the \<^verbatim>\<open>catch\<close> block never changes \<open>lastProcessed\<close>.
  So when every item from index \<open>i\<close> to the end fails item-locally (new titles, each
  insert call rejected with an error that is not retried and does not end the job,
  storage working), the loop ends normally with \<open>lastProcessed\<close> unchanged, with
  \<^verbatim>\<open>progress.json\<close> holding that cursor, and with the indices \<open>i\<close> to the last appended to
  the failed list. A later run that reads a cursor \<open>pr\<close> and exits with code 0 has entered
  the loop body for every index above \<open>lastProcessed pr\<close>: the failed ones too.
\<close>

theorem failed_item_keeps_cursor:
  "(entry_at ps i = Inr p \<and>
    postToBloggerWithRetry ev p (postedIds st) (existingTitles st) 1
      (w\<lparr>trace := trace w @ [Visit i]\<rparr>) = (Inl e, ids1, ts1, w1) \<and>
    iteration ev ps i st w = (Normal st2, w2) \<longrightarrow>
      lastProcessed (progress st2) = lastProcessed (progress st) \<and>
      failed (progress st2) = failed (progress st) @ [Failed i (title p) (message e)] \<and>
      progress_json w2 = Content (stringify (progress st2))) \<and>
   (catch_item ev i p e st w = (Normal st3, w3) \<longrightarrow>
      lastProcessed (progress st3) = lastProcessed (progress st)) \<and>
   ((\<forall>k. save_error ev k = None) \<and> (\<forall>m\<ge>n_insert w. insert_reply ev m = Rejected e) \<and>
    \<not> isRateLimitError e \<and> \<not> str_includes (message e) ''Rate limit exceeded'' \<and>
    0 \<le> i \<and> i < int (length ps) \<and>
    (\<forall>j. i \<le> j \<and> j < int (length ps) \<longrightarrow>
       (\<exists>q. ps ! nat j = Post q \<and> \<not> has (postedIds st) (title q) \<and>
            \<not> has (existingTitles st) (title q))) \<longrightarrow>
      (\<exists>st' w'. loop ev ps i st w = (Normal st', w') \<and>
         lastProcessed (progress st') = lastProcessed (progress st) \<and>
         progress_json w' = Content (stringify (progress st')) \<and>
         map index (failed (progress st')) =
           map index (failed (progress st)) @ [i..int (length ps) - 1])) \<and>
   (required_vars ev \<and> posts_json w0 = Content ps \<and>
    loadProgress w0 = Inr pr \<and>
    loadPostedIds w0 = Inr ids \<and> fetchExistingTitles ev w0 = Some (Inr ts, w4) \<and>
    main ev w0 = Some (0, w5) \<and> lastProcessed pr < j \<and> j < int (length ps) \<longrightarrow>
      j \<in> set (visited (trace w5)))"
proof -
  have 3: "\<exists>st' w'. loop ev ps i st w = (Normal st', w') \<and>
         lastProcessed (progress st') = lastProcessed (progress st) \<and>
         progress_json w' = Content (stringify (progress st')) \<and>
         map index (failed (progress st')) =
           map index (failed (progress st)) @ [i..int (length ps) - 1]"
    if "\<forall>k. save_error ev k = None" "\<forall>m\<ge>n_insert w. insert_reply ev m = Rejected e"
      "\<not> isRateLimitError e" "\<not> str_includes (message e) ''Rate limit exceeded''"
      "0 \<le> i" "i < int (length ps)"
      "\<forall>j. i \<le> j \<and> j < int (length ps) \<longrightarrow>
       (\<exists>q. ps ! nat j = Post q \<and> \<not> has (postedIds st) (title q) \<and>
            \<not> has (existingTitles st) (title q))"
    using loop_trailing_failures[OF that(1,3,4) refl that(5,6,2,7)] .
  show ?thesis
    using iteration_failed_frame[of ps i p ev st w e ids1 ts1 w1 st2 w2]
      catch_item_keeps_cursor[of ev i p e st w st3 w3] 3
      resumed_indices[of ev w0 ps pr ids ts w4 w5 j]
    by blast
qed

theorem failed_item_keeps_cursor_witness:
  "entry_at two_posts 0 = Inr (titled ''A'') \<and>
   postToBloggerWithRetry (always_rejecting backend_error) (titled ''A'') [] [] 1
       ((fresh two_posts)\<lparr>trace := [Visit 0]\<rparr>)
     = (Inl backend_error, [], [],
        (fresh two_posts)\<lparr>n_insert := 1, trace := [Visit 0, Insert (request_of (titled ''A''))]\<rparr>) \<and>
   (\<exists>st2 w2. iteration (always_rejecting backend_error) two_posts 0 start_state (fresh two_posts)
                = (Normal st2, w2) \<and>
      lastProcessed (progress st2) = - 1 \<and>
      failed (progress st2) = [Failed 0 ''A'' ''Backend Error''] \<and>
      progress_json w2 = Content (stringify (progress st2))) \<and>
   (\<exists>st' w'. loop (always_rejecting backend_error) two_posts 0 start_state (fresh two_posts)
                = (Normal st', w') \<and>
      lastProcessed (progress st') = - 1 \<and>
      progress_json w' = Content (stringify (progress st')) \<and>
      map index (failed (progress st')) = [0, 1]) \<and>
   loadProgress after_failures
     = Inr \<lparr>lastProcessed = - 1,
            failed = [Failed 0 ''A'' ''Backend Error'', Failed 1 ''B'' ''Backend Error'']\<rparr> \<and>
   (\<exists>w'. main accepting after_failures = Some (0, w') \<and>
      0 \<in> set (visited (trace w')) \<and> 1 \<in> set (visited (trace w')))"
proof -
  let ?ev = "always_rejecting backend_error"
  let ?w = "fresh two_posts"
  let ?wv = "?w\<lparr>trace := trace ?w @ [Visit 0]\<rparr>"
  let ?w1 = "?w\<lparr>n_insert := 1, trace := [Visit 0, Insert (request_of (titled ''A''))]\<rparr>"
  let ?pr = "\<lparr>lastProcessed = - 1,
            failed = [Failed 0 ''A'' ''Backend Error'', Failed 1 ''B'' ''Backend Error'']\<rparr>"
  have saves: "\<forall>k. save_error ?ev k = None" and rej: "\<forall>m\<ge>n_insert ?w. insert_reply ?ev m = Rejected backend_error"
    by (simp_all add: always_rejecting_def remote_def)
  have en: "entry_at two_posts 0 = Inr (titled ''A'')"
    by (simp add: entry_at_def two_posts_def)
  have nrl: "\<not> isRateLimitError backend_error"
    by (simp add: isRateLimitError_def backend_error_def str_includes.simps)
  have ninc: "\<not> str_includes (message backend_error) ''Rate limit exceeded''"
    by (simp add: backend_error_def str_includes.simps)
  have att: "postToBloggerWithRetry ?ev (titled ''A'') (postedIds start_state)
               (existingTitles start_state) 1 ?wv = (Inl backend_error, [], [], ?w1)"
    by (subst retry_fatal[OF publish_once_rejected[where e = backend_error] nrl])
       (simp_all add: start_state_def has_def always_rejecting_def remote_def fresh_def)
  have t: "try_item ?ev (length two_posts) 0 (titled ''A'') start_state ?wv
             = (Some backend_error, start_state, ?w1)"
    using att by (simp add: try_item_def start_state_def)
  obtain st2 w2 where it: "iteration ?ev two_posts 0 start_state ?w = (Normal st2, w2)"
    using iteration_item_local[OF en t saves[rule_format] ninc] by blast
  have posts: "\<forall>j. 0 \<le> j \<and> j < int (length two_posts) \<longrightarrow>
       (\<exists>q. two_posts ! nat j = Post q \<and> \<not> has (postedIds start_state) (title q) \<and>
            \<not> has (existingTitles start_state) (title q))"
  proof (intro allI impI)
    fix j :: int assume "0 \<le> j \<and> j < int (length two_posts)"
    then have "j = 0 \<or> j = 1" by (auto simp: two_posts_def)
    then show "\<exists>q. two_posts ! nat j = Post q \<and> \<not> has (postedIds start_state) (title q) \<and>
            \<not> has (existingTitles start_state) (title q)"
      by (auto simp: two_posts_def start_state_def has_def)
  qed
  have len: "(0::int) \<le> 0 \<and> 0 < int (length two_posts)" by (simp add: two_posts_def)
  have files: "required_vars accepting \<and> posts_json after_failures = Content two_posts \<and>
      loadProgress after_failures = Inr ?pr \<and>
      loadPostedIds after_failures = Inr [] \<and>
      fetchExistingTitles accepting after_failures
        = Some (Inr [], written (ExistingTitles []) (after_failures\<lparr>n_list := 1\<rparr>))"
    by (simp add: accepting_def remote_def after_failures_def fresh_def loadJsonFile_def loadProgress_def
        repair_def default_progress_def stringify_def
        loadPostedIds_def new_Set_def enoent_def fetchExistingTitles_def refresh_titles_def
        list_pages.simps saveJsonFile_def)
  from retried_run obtain w5 where m: "main accepting after_failures = Some (0, w5)" by blast
  note T = failed_item_keeps_cursor[where ps = two_posts and i = 0 and p = "titled ''A''"
      and ev = ?ev and st = start_state and w = ?w and e = backend_error and ?ids1.0 = "[]"
      and ?ts1.0 = "[]" and ?w1.0 = ?w1 and ?st2.0 = st2 and ?w2.0 = w2]
  note R = failed_item_keeps_cursor[where ps = two_posts and ev = accepting
      and ?w0.0 = after_failures and pr = ?pr and ids = "[]" and ts = "[]"
      and ?w4.0 = "written (ExistingTitles []) (after_failures\<lparr>n_list := 1\<rparr>)" and ?w5.0 = w5]
  have z: "lastProcessed (progress start_state) = - 1" "failed (progress start_state) = []"
    "title (titled ''A'') = ''A''" "message backend_error = ''Backend Error''"
    "length two_posts = 2" "trace ?w = []" "postedIds start_state = []"
    "existingTitles start_state = []"
    by (simp_all add: start_state_def titled_def backend_error_def two_posts_def fresh_def)
  have a: "lastProcessed (progress st2) = - 1 \<and>
      failed (progress st2) = [Failed 0 ''A'' ''Backend Error''] \<and>
      progress_json w2 = Content (stringify (progress st2))"
    using T en att it z by simp
  have u: "[(0::int)..1] = [0, 1]" by (simp add: upto.simps)
  have b: "\<exists>st' w'. loop ?ev two_posts 0 start_state ?w = (Normal st', w') \<and>
      lastProcessed (progress st') = - 1 \<and>
      progress_json w' = Content (stringify (progress st')) \<and>
      map index (failed (progress st')) = [0, 1]"
    using T saves rej nrl ninc len posts z(1,2,5) u by simp
  have c: "0 \<in> set (visited (trace w5))" "1 \<in> set (visited (trace w5))"
    using R[where j = 0] R[where j = 1] files m z(5) by simp_all
  have att': "postToBloggerWithRetry ?ev (titled ''A'') [] [] 1 (?w\<lparr>trace := [Visit 0]\<rparr>)
      = (Inl backend_error, [], [], ?w1)"
    using att z by simp
  show ?thesis
    using en att' it a b files m c by blast
qed

end
